theory Spec2Isabelle
  imports Complex_Main
begin

section \<open>JavaScript numbers\<close>

text \<open>
  The server converts the submitted position with \<^verbatim>\<open>Number(position) - 1\<close> and adds up
  scores with \<^verbatim>\<open>+=\<close>. A JavaScript number is an IEEE 754 double: \<open>NaN\<close>, an infinity,
  or a finite value, kept here as the rational it denotes (the sign of zero is not kept:
  nothing in the server tells \<open>-0\<close> from \<open>+0\<close>). Arithmetic rounds its exact result to
  the nearest double, ties to even.
\<close>

datatype jsnum = NaN | Num rat | PInf | NInf

function bitlen :: "nat \<Rightarrow> nat" where
  "bitlen n = (if n = 0 then 0 else Suc (bitlen (n div 2)))"
  by pat_completeness auto
termination
  by (relation "measure id") auto

declare bitlen.simps [simp del]

text \<open>\<open>scale2 n d k\<close> is the fraction \<open>n / d\<close> divided by \<open>2 ^ k\<close>, for any sign of \<open>k\<close>.\<close>

definition scale2 :: "int \<Rightarrow> int \<Rightarrow> int \<Rightarrow> int \<times> int" where
  "scale2 n d k = (if 0 \<le> k then (n, d * 2 ^ nat k) else (n * 2 ^ nat (- k), d))"

definition floor_log2 :: "int \<Rightarrow> int \<Rightarrow> int" where
  "floor_log2 n d =
     (let e = int (bitlen (nat n)) - int (bitlen (nat d));
          (n', d') = scale2 n d e
      in if d' \<le> n' then e else e - 1)"

definition round_half_even :: "int \<Rightarrow> int \<Rightarrow> int" where
  "round_half_even n d =
     (let f = n div d; r = 2 * (n mod d)
      in if r < d then f else if d < r then f + 1 else if even f then f else f + 1)"

text \<open>
  Rounding to a double: 53 significant bits, exponents from \<open>-1022\<close> (below it the
  subnormal spacing \<open>2 ^ -1074\<close>), overflow to an infinity from \<open>2 ^ 1024\<close> on.
\<close>

definition round_double :: "rat \<Rightarrow> jsnum" where
  "round_double q =
     (if q = 0 then Num 0
      else let (n, d) = quotient_of \<bar>q\<bar>;
               k = max (floor_log2 n d) (- 1022) - 52;
               (n', d') = scale2 n d k;
               m = round_half_even n' d'
           in if 0 \<le> k \<and> 2 ^ 1024 \<le> m * 2 ^ nat k then (if 0 < q then PInf else NInf)
              else let v = (if 0 \<le> k then of_int (m * 2 ^ nat k)
                            else of_int m / of_int (2 ^ nat (- k)))
                   in Num (if 0 < q then v else - v))"

fun js_add :: "jsnum \<Rightarrow> jsnum \<Rightarrow> jsnum" where
  "js_add NaN _ = NaN"
| "js_add _ NaN = NaN"
| "js_add PInf NInf = NaN"
| "js_add NInf PInf = NaN"
| "js_add PInf _ = PInf"
| "js_add _ PInf = PInf"
| "js_add NInf _ = NInf"
| "js_add _ NInf = NInf"
| "js_add (Num a) (Num b) = round_double (a + b)"

fun js_sub :: "jsnum \<Rightarrow> jsnum \<Rightarrow> jsnum" where
  "js_sub NaN _ = NaN"
| "js_sub _ NaN = NaN"
| "js_sub PInf PInf = NaN"
| "js_sub NInf NInf = NaN"
| "js_sub PInf _ = PInf"
| "js_sub _ NInf = PInf"
| "js_sub NInf _ = NInf"
| "js_sub _ PInf = NInf"
| "js_sub (Num a) (Num b) = round_double (a - b)"

text \<open>\<^verbatim>\<open>==\<close>, \<^verbatim>\<open><\<close> and \<^verbatim>\<open>>=\<close> on numbers: every comparison with \<open>NaN\<close> is false.\<close>

fun js_eq :: "jsnum \<Rightarrow> jsnum \<Rightarrow> bool" where
  "js_eq NaN _ = False"
| "js_eq _ NaN = False"
| "js_eq a b = (a = b)"

fun js_lt :: "jsnum \<Rightarrow> jsnum \<Rightarrow> bool" where
  "js_lt NaN _ = False"
| "js_lt _ NaN = False"
| "js_lt PInf _ = False"
| "js_lt _ NInf = False"
| "js_lt NInf _ = True"
| "js_lt _ PInf = True"
| "js_lt (Num a) (Num b) = (a < b)"

fun js_ge :: "jsnum \<Rightarrow> jsnum \<Rightarrow> bool" where
  "js_ge NaN _ = False"
| "js_ge _ NaN = False"
| "js_ge a b = (\<not> js_lt a b)"

definition isNaN :: "jsnum \<Rightarrow> bool" where
  "isNaN n = (n = NaN)"

subsection \<open>\<^verbatim>\<open>Number(value)\<close>\<close>

text \<open>
  The position arrives as a JSON value: the text the player typed (\<^verbatim>\<open>args[0]\<close> of the
  client), or \<^verbatim>\<open>null\<close> when the player typed nothing (\<^verbatim>\<open>undefined\<close> is sent as
  \<^verbatim>\<open>null\<close>). \<^verbatim>\<open>Number\<close> of a string follows the StringNumericLiteral grammar of
  ECMAScript: surrounding white space is dropped, the empty string is \<open>0\<close>, then either
  an unsigned binary, octal or hexadecimal integer, or a signed decimal literal with an
  optional fraction and exponent, or a signed \<^verbatim>\<open>Infinity\<close>; anything else is \<open>NaN\<close>.
  Characters are the code units below 256.
\<close>

datatype jsval = JNull | JStr string

definition is_ws :: "char \<Rightarrow> bool" where
  "is_ws c = (of_char c \<in> {9, 10, 11, 12, 13, 32, 160 :: nat})"

definition trim :: "string \<Rightarrow> string" where
  "trim s = rev (dropWhile is_ws (rev (dropWhile is_ws s)))"

definition digit_of :: "char \<Rightarrow> nat option" where
  "digit_of c =
     (let n = (of_char c :: nat)
      in if 48 \<le> n \<and> n \<le> 57 then Some (n - 48)
         else if 97 \<le> n \<and> n \<le> 102 then Some (n - 87)
         else if 65 \<le> n \<and> n \<le> 70 then Some (n - 55)
         else None)"

definition is_digit :: "nat \<Rightarrow> char \<Rightarrow> bool" where
  "is_digit base c = (case digit_of c of None \<Rightarrow> False | Some d \<Rightarrow> d < base)"

definition digits_value :: "nat \<Rightarrow> string \<Rightarrow> nat" where
  "digits_value base ds = fold (\<lambda>c n. n * base + the (digit_of c)) ds 0"

definition parse_digits :: "nat \<Rightarrow> string \<Rightarrow> nat option" where
  "parse_digits base ds =
     (if ds \<noteq> [] \<and> list_all (is_digit base) ds then Some (digits_value base ds) else None)"

definition parse_non_decimal :: "string \<Rightarrow> nat option" where
  "parse_non_decimal t =
     (case t of
        z # p # ds \<Rightarrow>
          if z \<noteq> CHR ''0'' then None
          else if p = CHR ''x'' \<or> p = CHR ''X'' then parse_digits 16 ds
          else if p = CHR ''o'' \<or> p = CHR ''O'' then parse_digits 8 ds
          else if p = CHR ''b'' \<or> p = CHR ''B'' then parse_digits 2 ds
          else None
      | _ \<Rightarrow> None)"

definition split_sign :: "string \<Rightarrow> bool \<times> string" where
  "split_sign t =
     (case t of
        [] \<Rightarrow> (False, t)
      | c # r \<Rightarrow> if c = CHR ''-'' then (True, r) else if c = CHR ''+'' then (False, r) else (False, t))"

definition parse_exponent :: "string \<Rightarrow> int option" where
  "parse_exponent t =
     (case t of
        [] \<Rightarrow> Some 0
      | c # r \<Rightarrow>
          if c = CHR ''e'' \<or> c = CHR ''E'' then
            (let (neg, ds) = split_sign r
             in case parse_digits 10 ds of
                  None \<Rightarrow> None
                | Some n \<Rightarrow> Some (if neg then - int n else int n))
          else None)"

definition pow10 :: "int \<Rightarrow> rat" where
  "pow10 e = (if 0 \<le> e then of_int (10 ^ nat e) else 1 / of_int (10 ^ nat (- e)))"

definition parse_decimal :: "string \<Rightarrow> jsnum option" where
  "parse_decimal t =
     (let (neg, u) = split_sign t
      in if u = ''Infinity'' then Some (if neg then NInf else PInf)
         else
           let ip = takeWhile (is_digit 10) u;
               r1 = dropWhile (is_digit 10) u;
               (fp, r2) = (case r1 of
                             [] \<Rightarrow> ([], r1)
                           | c # r \<Rightarrow> if c = CHR ''.''
                                      then (takeWhile (is_digit 10) r, dropWhile (is_digit 10) r)
                                      else ([], r1))
           in if ip = [] \<and> fp = [] then None
              else case parse_exponent r2 of
                     None \<Rightarrow> None
                   | Some e \<Rightarrow>
                       let v = of_nat (digits_value 10 (ip @ fp)) * pow10 (e - int (length fp))
                       in Some (round_double (if neg then - v else v)))"

definition StringToNumber :: "string \<Rightarrow> jsnum" where
  "StringToNumber s =
     (let t = trim s
      in if t = [] then Num 0
         else case parse_non_decimal t of
                Some n \<Rightarrow> round_double (of_nat n)
              | None \<Rightarrow> (case parse_decimal t of Some v \<Rightarrow> v | None \<Rightarrow> NaN))"

fun Number_js :: "jsval \<Rightarrow> jsnum" where
  "Number_js JNull = Num 0"
| "Number_js (JStr s) = StringToNumber s"

section \<open>The server: \<^verbatim>\<open>server.js\<close>\<close>

text \<open>
  The module state of the server is its two socket variables and the board. A socket is
  known by a number. The calls the server makes on the transport (\<^verbatim>\<open>emit\<close>,
  \<^verbatim>\<open>disconnect\<close>), on the console and on the acknowledgement callback are appended to a
  trace, in program order. \<^verbatim>\<open>setupSocket\<close> registers four listeners that close over
  \<^verbatim>\<open>socket\<close> and \<^verbatim>\<open>symbol\<close>: the registrations are kept as a list of pairs, in
  registration order. The sockets that are no longer connected, whoever closed them, are
  kept in \<open>disconnected\<close>, the last one closed first. A \<^verbatim>\<open>TypeError\<close> thrown inside a
  listener is not caught anywhere, so it ends the process: \<open>crashed\<close>.
\<close>

type_synonym socket = nat

datatype payload = Null | Str string | Board "string list"

datatype action =
    Emit socket string payload
  | Disconnect socket
  | ConsoleError string
  | Ack socket
  | Throw string

record state =
  firstPlayerSocket :: "socket option"
  secondPlayerSocket :: "socket option"
  board :: "string list"
  listeners :: "(socket \<times> string) list"
  trace :: "action list"
  crashed :: bool
  disconnected :: "socket list"

definition empty_board :: "string list" where
  "empty_board = [''.'', ''.'', ''.'', ''.'', ''.'', ''.'', ''.'', ''.'', ''.'']"

definition initial_state :: state where
  "initial_state =
     \<lparr>firstPlayerSocket = None, secondPlayerSocket = None, board = empty_board,
      listeners = [], trace = [], crashed = False, disconnected = []\<rparr>"

definition act :: "action \<Rightarrow> state \<Rightarrow> state" where
  "act a st = st\<lparr>trace := trace st @ [a]\<rparr>"

definition throw :: "string \<Rightarrow> state \<Rightarrow> state" where
  "throw e st = (act (Throw e) st)\<lparr>crashed := True\<rparr>"

text \<open>\<^verbatim>\<open>socketVariable.emit(event, data)\<close>: a \<^verbatim>\<open>TypeError\<close> when the variable is null.\<close>

definition emit :: "socket option \<Rightarrow> string \<Rightarrow> payload \<Rightarrow> state \<Rightarrow> state" where
  "emit socket event data st =
     (case socket of
        None \<Rightarrow> throw ''TypeError'' st
      | Some s \<Rightarrow> act (Emit s event data) st)"

definition emitToAll :: "string \<Rightarrow> payload \<Rightarrow> state \<Rightarrow> state" where
  "emitToAll event data st =
     (let st1 = (if firstPlayerSocket st \<noteq> None then emit (firstPlayerSocket st) event data st
                 else st)
      in if secondPlayerSocket st1 \<noteq> None then emit (secondPlayerSocket st1) event data st1
         else st1)"

definition otherPlayerOrdinal :: "string \<Rightarrow> string" where
  "otherPlayerOrdinal symbol = (if symbol = ''x'' then ''second'' else ''first'')"

definition registered :: "socket \<Rightarrow> state \<Rightarrow> string list" where
  "registered s st = map snd (filter (\<lambda>l. fst l = s) (listeners st))"

text \<open>
  \<^verbatim>\<open>cleanUp\<close> calls \<^verbatim>\<open>disconnect()\<close> on each socket variable and sets the variable to
  null only after the call has returned. On the server side of the transport,
  \<^verbatim>\<open>socket.disconnect()\<close> does nothing on a socket that is no longer connected;
  otherwise it sends the close packet, marks the socket as not connected, and runs the
  \<^verbatim>\<open>disconnect\<close> listeners of the socket before it returns. The listener that
  \<^verbatim>\<open>setupSocket\<close> registers for \<^verbatim>\<open>disconnect\<close> calls \<^verbatim>\<open>announceWinnerByDisconnection\<close>,
  which calls \<^verbatim>\<open>cleanUp\<close> again: the four functions are defined together. Only a call of
  \<^verbatim>\<open>disconnect()\<close> that finds the socket connected is put on the trace.
\<close>

function cleanUp :: "state \<Rightarrow> state"
  and announceWinnerByDisconnection :: "string \<Rightarrow> state \<Rightarrow> state"
  and disconnect :: "socket \<Rightarrow> state \<Rightarrow> state"
  and disconnect_listeners :: "string list \<Rightarrow> state \<Rightarrow> state"
where
  "cleanUp st =
     (let st1 = (case firstPlayerSocket st of
                   Some s \<Rightarrow> (disconnect s st)\<lparr>firstPlayerSocket := None\<rparr>
                 | None \<Rightarrow> st);
          st2 = (case secondPlayerSocket st1 of
                   Some s \<Rightarrow> (disconnect s st1)\<lparr>secondPlayerSocket := None\<rparr>
                 | None \<Rightarrow> st1)
      in st2\<lparr>board := [''.'', ''.'', ''.'', ''.'', ''.'', ''.'', ''.'', ''.'', ''.'']\<rparr>)"
| "announceWinnerByDisconnection winner st =
     (let other = (if winner = ''first'' then ''second'' else ''first'')
      in cleanUp (emitToAll ''game_over''
           (Str (''won by '' @ winner @ '' player since '' @ other @ '' player disconnected''))
           st))"
| "disconnect s st =
     (if s \<in> set (disconnected st) then st
      else disconnect_listeners (registered s st)
             ((act (Disconnect s) st)\<lparr>disconnected := s # disconnected st\<rparr>))"
| "disconnect_listeners [] st = st"
| "disconnect_listeners (symbol # rest) st =
     (let st' = announceWinnerByDisconnection (otherPlayerOrdinal symbol) st
      in if crashed st' then st' else disconnect_listeners rest st')"
  by pat_completeness auto

definition announceWinner :: "string \<Rightarrow> state \<Rightarrow> state" where
  "announceWinner who st =
     cleanUp (emitToAll ''game_over'' (Str (''won by '' @ who @ '' player'')) st)"

definition announceWinnerByResignation :: "string \<Rightarrow> state \<Rightarrow> state" where
  "announceWinnerByResignation winner st =
     cleanUp (emitToAll ''game_over''
       (Str (''won by '' @ winner @ '' player due to resignation'')) st)"

definition announceTie :: "state \<Rightarrow> state" where
  "announceTie st = cleanUp (emitToAll ''game_over'' (Str ''is tied'') st)"

definition determineWinnerFromSum :: "jsnum \<Rightarrow> state \<Rightarrow> bool \<times> state" where
  "determineWinnerFromSum sm st =
     (if js_eq sm (Num 3) then (True, announceWinner ''first'' st)
      else if js_eq sm (Num (- 3)) then (True, announceWinner ''second'' st)
      else (False, st))"

text \<open>
  \<^verbatim>\<open>symbolToScore\<close> has no \<^verbatim>\<open>return\<close> for a symbol that is neither \<^verbatim>\<open>'x'\<close> nor
  \<^verbatim>\<open>'o'\<close>: its value is then \<^verbatim>\<open>undefined\<close>, here \<open>None\<close>. The argument is what an array
  read gave, \<open>None\<close> when the index was outside the array.
\<close>

definition symbolToScore :: "string option \<Rightarrow> jsnum option" where
  "symbolToScore symbol =
     (if symbol = Some ''x'' then Some (Num 1)
      else if symbol = Some ''o'' then Some (Num (- 1))
      else None)"

text \<open>An operand of \<^verbatim>\<open>+\<close> that is \<^verbatim>\<open>undefined\<close> is converted to \<open>NaN\<close>.\<close>

definition ToNumber :: "jsnum option \<Rightarrow> jsnum" where
  "ToNumber v = (case v of None \<Rightarrow> NaN | Some n \<Rightarrow> n)"

definition js_plus :: "jsnum option \<Rightarrow> jsnum option \<Rightarrow> jsnum" where
  "js_plus a b = js_add (ToNumber a) (ToNumber b)"

text \<open>\<^verbatim>\<open>board[i]\<close> for a whole-number index: \<^verbatim>\<open>undefined\<close> outside the array.\<close>

definition at_index :: "string list \<Rightarrow> nat \<Rightarrow> string option" where
  "at_index b i = (if i < length b then Some (b ! i) else None)"

text \<open>
  The inner loops of \<^verbatim>\<open>checkForGameOver\<close>: \<^verbatim>\<open>sum\<close> (here \<open>sm\<close>) starts at 0 and each of the three
  cells of the row (of the column) is added.
\<close>

definition rowSum :: "string list \<Rightarrow> nat \<Rightarrow> jsnum" where
  "rowSum b row =
     fold (\<lambda>col sm. js_plus (Some sm) (symbolToScore (at_index b (row * 3 + col))))
       [0, 1, 2] (Num 0)"

definition colSum :: "string list \<Rightarrow> nat \<Rightarrow> jsnum" where
  "colSum b col =
     fold (\<lambda>row sm. js_plus (Some sm) (symbolToScore (at_index b (row * 3 + col))))
       [0, 1, 2] (Num 0)"

definition diagonal1Sum :: "string list \<Rightarrow> jsnum" where
  "diagonal1Sum b =
     js_plus (Some (js_plus (symbolToScore (at_index b 0)) (symbolToScore (at_index b 4))))
       (symbolToScore (at_index b 8))"

definition diagonal2Sum :: "string list \<Rightarrow> jsnum" where
  "diagonal2Sum b =
     js_plus (Some (js_plus (symbolToScore (at_index b 2)) (symbolToScore (at_index b 4))))
       (symbolToScore (at_index b 6))"

text \<open>The outer loops: the rows (the columns) still to check, stopping at the first win.\<close>

fun checkRows :: "nat list \<Rightarrow> state \<Rightarrow> bool \<times> state" where
  "checkRows [] st = (False, st)"
| "checkRows (row # rows) st =
     (case determineWinnerFromSum (rowSum (board st) row) st of
        (True, st') \<Rightarrow> (True, st')
      | (False, st') \<Rightarrow> checkRows rows st')"

fun checkCols :: "nat list \<Rightarrow> state \<Rightarrow> bool \<times> state" where
  "checkCols [] st = (False, st)"
| "checkCols (col # cols) st =
     (case determineWinnerFromSum (colSum (board st) col) st of
        (True, st') \<Rightarrow> (True, st')
      | (False, st') \<Rightarrow> checkCols cols st')"

text \<open>The last loop: is any cell still \<^verbatim>\<open>'.'\<close>?\<close>

fun unoccupiedLeft :: "string list \<Rightarrow> bool" where
  "unoccupiedLeft [] = False"
| "unoccupiedLeft (c # cs) = (if c = ''.'' then True else unoccupiedLeft cs)"

definition checkForGameOver :: "state \<Rightarrow> bool \<times> state" where
  "checkForGameOver st =
     (case checkRows [0, 1, 2] st of
        (True, st1) \<Rightarrow> (True, st1)
      | (False, st1) \<Rightarrow>
     (case checkCols [0, 1, 2] st1 of
        (True, st2) \<Rightarrow> (True, st2)
      | (False, st2) \<Rightarrow>
     (case determineWinnerFromSum (diagonal1Sum (board st2)) st2 of
        (True, st3) \<Rightarrow> (True, st3)
      | (False, st3) \<Rightarrow>
     (case determineWinnerFromSum (diagonal2Sum (board st3)) st3 of
        (True, st4) \<Rightarrow> (True, st4)
      | (False, st4) \<Rightarrow>
          if unoccupiedLeft (board st4) then (False, st4)
          else (True, announceTie st4)))))"

subsection \<open>\<^verbatim>\<open>setupSocket\<close> and its listeners\<close>

definition setupSocket :: "socket \<Rightarrow> string \<Rightarrow> state \<Rightarrow> state" where
  "setupSocket socket symbol st = st\<lparr>listeners := listeners st @ [(socket, symbol)]\<rparr>"

definition on_disconnect :: "string \<Rightarrow> state \<Rightarrow> state" where
  "on_disconnect symbol st = announceWinnerByDisconnection (otherPlayerOrdinal symbol) st"

definition on_resign :: "string \<Rightarrow> state \<Rightarrow> state" where
  "on_resign symbol st = announceWinnerByResignation (otherPlayerOrdinal symbol) st"

definition on_turn_error :: "string \<Rightarrow> string \<Rightarrow> state \<Rightarrow> state" where
  "on_turn_error symbol err st =
     (let ordinal = (if symbol = ''x'' then ''first'' else ''second'');
          st1 = act (ConsoleError (ordinal @ '' player had an error with input ('' @ err
                  @ ''). assuming disconnection.'')) st
      in announceWinnerByDisconnection (otherPlayerOrdinal symbol) st1)"

text \<open>
  \<^verbatim>\<open>board[position]\<close> with a number as the key: an element of the array when the number
  is whole and inside the array, \<^verbatim>\<open>undefined\<close> otherwise (a fraction such as \<open>0.5\<close>
  names no element).
\<close>

definition array_index :: "string list \<Rightarrow> jsnum \<Rightarrow> nat option" where
  "array_index b p =
     (case p of
        Num q \<Rightarrow> if q = of_int \<lfloor>q\<rfloor> \<and> 0 \<le> q \<and> q < of_nat (length b)
                 then Some (nat \<lfloor>q\<rfloor>) else None
      | _ \<Rightarrow> None)"

definition js_index :: "string list \<Rightarrow> jsnum \<Rightarrow> string option" where
  "js_index b p = (case array_index b p of None \<Rightarrow> None | Some i \<Rightarrow> Some (b ! i))"

text \<open>
  \<^verbatim>\<open>board[position] = symbol\<close>. The server reaches it only after it has read \<^verbatim>\<open>'.'\<close> at
  \<^verbatim>\<open>board[position]\<close>, so the position names an element of the array; for any other
  position this model leaves the list as it is.
\<close>

definition js_store :: "string list \<Rightarrow> jsnum \<Rightarrow> string \<Rightarrow> string list" where
  "js_store b p v = (case array_index b p of None \<Rightarrow> b | Some i \<Rightarrow> b[i := v])"

text \<open>
  \<^verbatim>\<open>next()\<close>: the acknowledgement callback, present when the client passed one with its
  \<^verbatim>\<open>turn_taken\<close>; calling it when it is absent is a \<^verbatim>\<open>TypeError\<close>.
\<close>

definition call_next :: "bool \<Rightarrow> socket \<Rightarrow> state \<Rightarrow> state" where
  "call_next next socket st = (if next then act (Ack socket) st else throw ''TypeError'' st)"

definition place_symbol :: "string \<Rightarrow> jsnum \<Rightarrow> state \<Rightarrow> state" where
  "place_symbol symbol position st =
     (let st1 = st\<lparr>board := js_store (board st) position symbol\<rparr>;
          st2 = emitToAll ''board_update'' (Board (board st1)) st1;
          (over, st3) = checkForGameOver st2
      in if \<not> over then
           (if symbol = ''x'' then emit (secondPlayerSocket st3) ''turn'' Null st3
            else emit (firstPlayerSocket st3) ''turn'' Null st3)
         else st3)"

definition on_turn_taken :: "socket \<Rightarrow> string \<Rightarrow> jsval \<Rightarrow> bool \<Rightarrow> state \<Rightarrow> state" where
  "on_turn_taken socket symbol raw next st =
     (let position = js_sub (Number_js raw) (Num 1);
          st' =
            (if isNaN position then
               emit (Some socket) ''turn''
                 (Str ''couldn't parse position. enter a number from 1-9.'') st
             else if js_lt position (Num 0)
                     \<or> js_ge position (Num (of_nat (length (board st)))) then
               emit (Some socket) ''turn''
                 (Str ''that position is out of bounds. enter a number from 1-9.'') st
             else if js_index (board st) position \<noteq> Some ''.'' then
               emit (Some socket) ''turn'' (Str ''that position is occupied. try again.'') st
             else place_symbol symbol position st)
      in if crashed st' then st' else call_next next socket st')"

subsection \<open>The \<^verbatim>\<open>connection\<close> listener\<close>

definition on_connection :: "socket \<Rightarrow> state \<Rightarrow> state" where
  "on_connection socket st =
     (let st1 =
            (if firstPlayerSocket st = None then st\<lparr>firstPlayerSocket := Some socket\<rparr>
             else if secondPlayerSocket st = None then st\<lparr>secondPlayerSocket := Some socket\<rparr>
             else emit (Some socket) ''reject''
                    (Str ''you can't connect now! there are already two players connected.'')
                    st)
      in if firstPlayerSocket st1 \<noteq> None \<and> secondPlayerSocket st1 \<noteq> None then
           (let st2 = setupSocket (the (firstPlayerSocket st1)) ''x'' st1;
                st3 = setupSocket (the (secondPlayerSocket st2)) ''o'' st2;
                st4 = emit (firstPlayerSocket st3) ''game_start'' (Str ''first'') st3;
                st5 = emit (secondPlayerSocket st4) ''game_start'' (Str ''second'') st4
            in emit (firstPlayerSocket st5) ''turn'' Null st5)
         else st1)"

subsection \<open>Events\<close>

text \<open>
  An event of a socket runs, in registration order, every listener registered on that
  socket for it: one per \<^verbatim>\<open>setupSocket\<close> call made with the socket. A listener that
  throws ends the process, and nothing runs after that. A socket that the other end or
  the network closes is marked as not connected before its \<^verbatim>\<open>disconnect\<close> listeners run;
  a socket is closed once, and nothing arrives from a socket that is no longer connected.
  Every connection brings a socket of its own, so a \<open>Connection\<close> carries a number not
  used before.
\<close>

datatype event =
    Connection socket
  | TurnTaken socket jsval bool
  | Resign socket
  | TurnError socket string
  | Disconnection socket

fun run_listeners :: "(string \<Rightarrow> state \<Rightarrow> state) \<Rightarrow> string list \<Rightarrow> state \<Rightarrow> state" where
  "run_listeners h [] st = st"
| "run_listeners h (symbol # rest) st =
     (let st' = h symbol st in if crashed st' then st' else run_listeners h rest st')"

fun deliver :: "event \<Rightarrow> state \<Rightarrow> state" where
  "deliver (Connection s) st = on_connection s st"
| "deliver (TurnTaken s raw next) st =
     (if s \<in> set (disconnected st) then st
      else run_listeners (\<lambda>symbol. on_turn_taken s symbol raw next) (registered s st) st)"
| "deliver (Resign s) st =
     (if s \<in> set (disconnected st) then st
      else run_listeners on_resign (registered s st) st)"
| "deliver (TurnError s err) st =
     (if s \<in> set (disconnected st) then st
      else run_listeners (\<lambda>symbol. on_turn_error symbol err) (registered s st) st)"
| "deliver (Disconnection s) st =
     (if s \<in> set (disconnected st) then st
      else run_listeners on_disconnect (registered s st)
             (st\<lparr>disconnected := s # disconnected st\<rparr>))"

definition step :: "event \<Rightarrow> state \<Rightarrow> state" where
  "step ev st = (if crashed st then st else deliver ev st)"

definition run :: "event list \<Rightarrow> state \<Rightarrow> state" where
  "run evs st = fold step evs st"

text \<open>
  The server keeps no variable for the turn. The turn is granted by a \<^verbatim>\<open>turn\<close> event,
  so the slot holding it is the socket the last \<^verbatim>\<open>turn\<close> event of the trace went to.
\<close>

fun granted :: "action \<Rightarrow> socket option" where
  "granted (Emit s ev d) = (if ev = ''turn'' then Some s else None)"
| "granted _ = None"

definition turn_token :: "state \<Rightarrow> socket option" where
  "turn_token st =
     fold (\<lambda>a holder. case granted a of Some s \<Rightarrow> Some s | None \<Rightarrow> holder) (trace st) None"

section \<open>The client: \<^verbatim>\<open>client.js\<close>, prompting in a loop\<close>

text \<open>
  The client keeps the flag \<^verbatim>\<open>isTurn\<close>: set by a \<^verbatim>\<open>turn\<close> event, cleared when a move
  or an input error is sent. The callback of \<^verbatim>\<open>readcommand.loop\<close> gets the words of
  the line the player typed; it returns what the client does and the new flag. On
  \<^verbatim>\<open>reject\<close> the client prints the reason and exits.
\<close>

datatype client_action =
    SendResign
  | SendTurnError string
  | SendTurnTaken jsval
  | PrintError string
  | NextCommand
  | Exit nat


definition client_on_reject :: "string \<Rightarrow> client_action list" where
  "client_on_reject reason = [PrintError (''rejected. '' @ reason), Exit 1]"

section \<open>Vocabulary of the properties\<close>

text \<open>
  The eight lines of the board, in the order \<^verbatim>\<open>checkForGameOver\<close> looks at them: the rows,
  the columns, then the two diagonals. A line is filled by a mark when each of its three
  cells holds that mark.
\<close>

definition lines :: "nat list list" where
  "lines = [[0, 1, 2], [3, 4, 5], [6, 7, 8], [0, 3, 6], [1, 4, 7], [2, 5, 8], [0, 4, 8], [2, 4, 6]]"

definition filled :: "string list \<Rightarrow> string \<Rightarrow> nat list \<Rightarrow> bool" where
  "filled b m l = list_all (\<lambda>i. at_index b i = Some m) l"

definition complete :: "string list \<Rightarrow> nat list \<Rightarrow> bool" where
  "complete b l = (filled b ''x'' l \<or> filled b ''o'' l)"

definition row_lines :: "nat list \<Rightarrow> nat list list" where
  "row_lines rs = map (\<lambda>r. [r * 3, r * 3 + 1, r * 3 + 2]) rs"

definition col_lines :: "nat list \<Rightarrow> nat list list" where
  "col_lines cs = map (\<lambda>c. [c, 3 + c, 6 + c]) cs"

text \<open>The number a cell contributes to a sum: the score of its symbol, converted.\<close>

definition cell_score :: "string list \<Rightarrow> nat \<Rightarrow> jsnum" where
  "cell_score b i = ToNumber (symbolToScore (at_index b i))"

text \<open>What looking at one line does, told from which mark fills it.\<close>

definition scan_line :: "string list \<Rightarrow> nat list \<Rightarrow> state \<Rightarrow> bool \<times> state" where
  "scan_line b l st =
     (if filled b ''x'' l then (True, announceWinner ''first'' st)
      else if filled b ''o'' l then (True, announceWinner ''second'' st)
      else (False, st))"

fun scan_lines :: "nat list list \<Rightarrow> state \<Rightarrow> (bool \<times> state) option" where
  "scan_lines [] st = None"
| "scan_lines (l # ls) st =
     (if filled (board st) ''x'' l then Some (True, announceWinner ''first'' st)
      else if filled (board st) ''o'' l then Some (True, announceWinner ''second'' st)
      else scan_lines ls st)"

text \<open>
  The sockets the two variables hold, first then second, and the state that
  \<^verbatim>\<open>emitToAll('game_over', msg); cleanUp()\<close> leaves.
\<close>

definition connected :: "state \<Rightarrow> socket list" where
  "connected st =
     (case firstPlayerSocket st of None \<Rightarrow> [] | Some a \<Rightarrow> [a])
     @ (case secondPlayerSocket st of None \<Rightarrow> [] | Some b \<Rightarrow> [b])"

definition ended :: "state \<Rightarrow> string \<Rightarrow> state" where
  "ended st msg = cleanUp (emitToAll ''game_over'' (Str msg) st)"

text \<open>The same state with calls put in front of its trace.\<close>

definition shift :: "action list \<Rightarrow> state \<Rightarrow> state" where
  "shift t st = st\<lparr>trace := t @ trace st\<rparr>"

text \<open>
  A game in progress between the sockets \<open>a\<close> (first, \<^verbatim>\<open>'x'\<close>) and \<open>c\<close> (second,
  \<^verbatim>\<open>'o'\<close>): both variables are set, both sockets are connected, and each went through
  \<^verbatim>\<open>setupSocket\<close> once.
\<close>

definition playing :: "state \<Rightarrow> socket \<Rightarrow> socket \<Rightarrow> bool" where
  "playing st a c =
     (firstPlayerSocket st = Some a \<and> secondPlayerSocket st = Some c \<and> a \<noteq> c
      \<and> a \<notin> set (disconnected st) \<and> c \<notin> set (disconnected st)
      \<and> registered a st = [''x''] \<and> registered c st = [''o''] \<and> \<not> crashed st)"

text \<open>
  The calls of \<^verbatim>\<open>cleanUp\<close> in a game in progress: the first socket is closed, its
  \<^verbatim>\<open>disconnect\<close> listener announces the second player to both variables and cleans up
  in its turn, which closes the second socket, whose listener announces the first player
  to the one variable still set.
\<close>

definition first_left :: string where
  "first_left = ''won by second player since first player disconnected''"

definition second_left :: string where
  "second_left = ''won by first player since second player disconnected''"

definition close_both :: "socket \<Rightarrow> socket \<Rightarrow> action list" where
  "close_both a c =
     [Disconnect a,
      Emit a ''game_over'' (Str first_left), Emit c ''game_over'' (Str first_left),
      Disconnect c,
      Emit c ''game_over'' (Str second_left)]"

text \<open>
  How a game ends on a board, if it does: the message of the first line, in the order
  of \<open>lines\<close>, that one mark fills, or the tie of a board with no such line and no
  \<^verbatim>\<open>'.'\<close> left.
\<close>

definition outcome :: "string list \<Rightarrow> string option" where
  "outcome b =
     (case find (complete b) lines of
        Some l \<Rightarrow> Some (''won by '' @ (if filled b ''x'' l then ''first'' else ''second'') @ '' player'')
      | None \<Rightarrow> if ''.'' \<in> set b then None else Some ''is tied'')"

text \<open>
  The branch of the \<^verbatim>\<open>turn_taken\<close> listener a submitted position takes on a board:
  one of its three rejections, or the index of the cell it writes.
\<close>

datatype verdict = Unparseable | OutOfBounds | Occupied | Accepted nat

definition verdict_at :: "string list \<Rightarrow> jsnum \<Rightarrow> verdict" where
  "verdict_at b position =
     (if isNaN position then Unparseable
      else if js_lt position (Num 0) \<or> js_ge position (Num (of_nat (length b)))
        then OutOfBounds
      else case array_index b position of
             None \<Rightarrow> Occupied
           | Some i \<Rightarrow> if b ! i = ''.'' then Accepted i else Occupied)"

definition verdict_of :: "string list \<Rightarrow> jsval \<Rightarrow> verdict" where
  "verdict_of b raw = verdict_at b (js_sub (Number_js raw) (Num 1))"

fun rejection_reason :: "verdict \<Rightarrow> string" where
  "rejection_reason Unparseable = ''couldn't parse position. enter a number from 1-9.''"
| "rejection_reason OutOfBounds = ''that position is out of bounds. enter a number from 1-9.''"
| "rejection_reason Occupied = ''that position is occupied. try again.''"
| "rejection_reason (Accepted i) = []"

fun rejected :: "verdict \<Rightarrow> bool" where
  "rejected (Accepted i) = False"
| "rejected _ = True"

text \<open>
  A game in progress between socket 1 (first, \<^verbatim>\<open>'x'\<close>) and socket 2 (second, \<^verbatim>\<open>'o'\<close>)
  on a given board, for examples.
\<close>

definition game :: "string list \<Rightarrow> state" where
  "game b =
     \<lparr>firstPlayerSocket = Some 1, secondPlayerSocket = Some 2, board = b,
      listeners = [(1, ''x''), (2, ''o'')], trace = [], crashed = False,
      disconnected = []\<rparr>"

text \<open>
  In a list of actions, every \<^verbatim>\<open>game_over\<close> sent to a socket comes after a
  \<^verbatim>\<open>board_update\<close> carrying the board \<open>b\<close> sent to the same socket; \<open>seen\<close> are the
  sockets that have got that board so far.
\<close>

fun board_first :: "string list \<Rightarrow> socket list \<Rightarrow> action list \<Rightarrow> bool" where
  "board_first b seen [] = True"
| "board_first b seen (Emit t ev d # as) =
     (if ev = ''board_update'' \<and> d = Board b then board_first b (t # seen) as
      else if ev = ''game_over'' then t \<in> set seen \<and> board_first b seen as
      else board_first b seen as)"
| "board_first b seen (_ # as) = board_first b seen as"

text \<open>
  What holds of the board and the listeners in every state the server reaches: between
  two events no line of the board is filled.
\<close>

definition well_formed :: "state \<Rightarrow> bool" where
  "well_formed st =
     (length (board st) = 9 \<and> set (board st) \<subseteq> {''x'', ''o'', ''.''}
      \<and> snd ` set (listeners st) \<subseteq> {''x'', ''o''}
      \<and> (\<forall>l \<in> set lines. \<not> complete (board st) l))"

subsection \<open>The measure of \<^verbatim>\<open>cleanUp\<close>\<close>

text \<open>
  \<^verbatim>\<open>cleanUp\<close> and the \<^verbatim>\<open>disconnect\<close> listener call each other. Every round closes a
  socket that was connected, and a closed socket runs no listener again: the
  registrations on sockets still connected are counted.
\<close>

definition open_listeners :: "state \<Rightarrow> nat" where
  "open_listeners st = length (filter (\<lambda>l. fst l \<notin> set (disconnected st)) (listeners st))"

definition cleanUp_measure ::
  "(state + string \<times> state) + (socket \<times> state) + (string list \<times> state) \<Rightarrow> nat \<times> nat" where
  "cleanUp_measure x =
     (case x of
        Inl (Inl st) \<Rightarrow> (4 * open_listeners st + 2, 0)
      | Inl (Inr (w, st)) \<Rightarrow> (4 * open_listeners st + 3, 0)
      | Inr (Inl (s, st)) \<Rightarrow> (4 * open_listeners st + 1, 0)
      | Inr (Inr (L, st)) \<Rightarrow> (if L = [] then 0 else 4 * open_listeners st + 4, length L))"

definition grown :: "state \<Rightarrow> state \<Rightarrow> bool" where
  "grown st st' =
     (listeners st' = listeners st \<and> set (disconnected st) \<subseteq> set (disconnected st'))"

text \<open>
  What \<^verbatim>\<open>cleanUp\<close> and the functions around it leave of a state: the registrations and
  the \<^verbatim>\<open>crashed\<close> flag as they were, no socket connected again, the variables as they
  were or null, the board as it was or empty, and the trace longer by calls of
  \<^verbatim>\<open>disconnect()\<close> and by \<^verbatim>\<open>game_over\<close> notifications to sockets the variables held.
\<close>

fun closing_call :: "socket list \<Rightarrow> action \<Rightarrow> bool" where
  "closing_call S (Emit t ev d) = (ev = ''game_over'' \<and> t \<in> set S)"
| "closing_call S (Disconnect t) = True"
| "closing_call S _ = False"

definition kept :: "state \<Rightarrow> state \<Rightarrow> bool" where
  "kept st st' =
     (listeners st' = listeners st \<and> crashed st' = crashed st
      \<and> set (disconnected st) \<subseteq> set (disconnected st')
      \<and> (firstPlayerSocket st' = None \<or> firstPlayerSocket st' = firstPlayerSocket st)
      \<and> (secondPlayerSocket st' = None \<or> secondPlayerSocket st' = secondPlayerSocket st)
      \<and> (board st' = board st \<or> board st' = empty_board)
      \<and> (\<exists>new. trace st' = trace st @ new \<and> list_all (closing_call (connected st)) new))"

text \<open>The first \<^verbatim>\<open>game_over\<close> notification a list of calls sends to a socket, if any.\<close>

fun first_game_over :: "socket \<Rightarrow> action list \<Rightarrow> payload option" where
  "first_game_over s [] = None"
| "first_game_over s (Emit t ev d # as) =
     (if t = s \<and> ev = ''game_over'' then Some d else first_game_over s as)"
| "first_game_over s (_ # as) = first_game_over s as"
section \<open>\<^verbatim>\<open>cleanUp\<close> returns\<close>

text \<open>
  What the four functions keep, as far as they return: the registrations, and the
  sockets already closed. With it, every call made on the way is smaller in the measure.
\<close>

lemma grown_refl [simp]: "grown st st"
  by (simp add: grown_def)

lemma grown_trans: "grown st st' \<Longrightarrow> grown st' st'' \<Longrightarrow> grown st st''"
  by (auto simp: grown_def)

lemma grown_fields [simp]:
  "grown st (st'\<lparr>firstPlayerSocket := f\<rparr>) = grown st st'"
  "grown st (st'\<lparr>secondPlayerSocket := g\<rparr>) = grown st st'"
  "grown st (st'\<lparr>board := b\<rparr>) = grown st st'"
  "grown st (st'\<lparr>trace := t\<rparr>) = grown st st'"
  "grown (st\<lparr>trace := t\<rparr>) st' = grown st st'"
  by (simp_all add: grown_def)

lemma grown_emitToAll [simp]: "grown st (emitToAll ev d st)"
  by (simp add: grown_def emitToAll_def emit_def act_def Let_def split: option.splits)

lemma filter_length_mono:
  "(\<And>x. x \<in> set xs \<Longrightarrow> P x \<Longrightarrow> Q x) \<Longrightarrow> length (filter P xs) \<le> length (filter Q xs)"
  by (induction xs) auto

lemma grown_open_listeners: "grown st st' \<Longrightarrow> open_listeners st' \<le> open_listeners st"
  unfolding grown_def open_listeners_def by (auto intro!: filter_length_mono)

lemma grown_dom:
  "cleanUp_announceWinnerByDisconnection_disconnect_disconnect_listeners_dom (Inl (Inl st))
     \<Longrightarrow> grown st (cleanUp st)"
  "cleanUp_announceWinnerByDisconnection_disconnect_disconnect_listeners_dom (Inl (Inr (w, st)))
     \<Longrightarrow> grown st (announceWinnerByDisconnection w st)"
  "cleanUp_announceWinnerByDisconnection_disconnect_disconnect_listeners_dom (Inr (Inl (s, st)))
     \<Longrightarrow> grown st (disconnect s st)"
  "cleanUp_announceWinnerByDisconnection_disconnect_disconnect_listeners_dom (Inr (Inr (L, st)))
     \<Longrightarrow> grown st (disconnect_listeners L st)"
proof (induction st and w st and s st and L st
    rule: cleanUp_announceWinnerByDisconnection_disconnect_disconnect_listeners.pinduct)
  case (1 st)
  define st1 where "st1 = (case firstPlayerSocket st of
                   Some s \<Rightarrow> (disconnect s st)\<lparr>firstPlayerSocket := None\<rparr>
                 | None \<Rightarrow> st)"
  have g1: "grown st st1"
    using "1.IH"(1) by (cases "firstPlayerSocket st") (simp_all add: st1_def)
  have g2: "grown st1 (case secondPlayerSocket st1 of
                   Some s \<Rightarrow> (disconnect s st1)\<lparr>secondPlayerSocket := None\<rparr>
                 | None \<Rightarrow> st1)"
    using "1.IH"(2) [OF st1_def] by (cases "secondPlayerSocket st1") simp_all
  show ?case
    using grown_trans [OF g1 g2]
    by (simp add: cleanUp.psimps [OF "1.hyps"] Let_def st1_def [symmetric])
next
  case (2 winner st)
  have "grown st (emitToAll ''game_over''
           (Str (''won by '' @ winner @ '' player since ''
                 @ (if winner = ''first'' then ''second'' else ''first'') @ '' player disconnected''))
           st)"
    by simp
  from grown_trans [OF this "2.IH" [OF refl]] show ?case
    by (simp add: announceWinnerByDisconnection.psimps [OF "2.hyps"] Let_def)
next
  case (3 s st)
  show ?case
  proof (cases "s \<in> set (disconnected st)")
    case True
    then show ?thesis by (simp add: disconnect.psimps [OF "3.hyps"])
  next
    case False
    have "grown st ((act (Disconnect s) st)\<lparr>disconnected := s # disconnected st\<rparr>)"
      by (auto simp: grown_def act_def)
    from grown_trans [OF this "3.IH" [OF False]] show ?thesis
      using False by (simp add: disconnect.psimps [OF "3.hyps"])
  qed
next
  case (4 st)
  then show ?case by (simp add: disconnect_listeners.psimps)
next
  case (5 symbol rest st)
  show ?case
  proof (cases "crashed (announceWinnerByDisconnection (otherPlayerOrdinal symbol) st)")
    case True
    then show ?thesis
      using "5.IH"(1) by (simp add: disconnect_listeners.psimps(2) [OF "5.hyps"] Let_def)
  next
    case False
    from grown_trans [OF "5.IH"(1) "5.IH"(2) [OF refl False]] show ?thesis
      using False by (simp add: disconnect_listeners.psimps(2) [OF "5.hyps"] Let_def)
  qed
qed

lemma open_listeners_close:
  assumes "s \<notin> set (disconnected st)" and "registered s st \<noteq> []"
  shows "open_listeners ((act (Disconnect s) st)\<lparr>disconnected := s # disconnected st\<rparr>)
         < open_listeners st"
proof -
  let ?open = "filter (\<lambda>l. fst l \<notin> set (disconnected st)) (listeners st)"
  from assms(2) obtain l where "l \<in> set (listeners st)" and "fst l = s"
    by (auto simp: registered_def filter_empty_conv)
  then have "l \<in> set ?open" using assms(1) by simp
  then have "length (filter (\<lambda>l. fst l \<noteq> s) ?open) < length ?open"
    using \<open>fst l = s\<close> by (intro length_filter_less) auto
  moreover have "filter (\<lambda>l. fst l \<noteq> s) ?open
                 = filter (\<lambda>l. fst l \<notin> set (s # disconnected st)) (listeners st)"
    by (auto intro: filter_cong)
  ultimately show ?thesis by (simp only: open_listeners_def act_def) simp
qed

lemma open_listeners_emitToAll [simp]: "open_listeners (emitToAll ev d st) = open_listeners st"
  by (simp add: open_listeners_def emitToAll_def emit_def act_def Let_def split: option.splits)

termination cleanUp
proof (relation "inv_image (less_than <*lex*> less_than) cleanUp_measure", goal_cases)
  case 1
  show ?case by (intro wf_inv_image wf_lex_prod wf_less_than)
next
  case (2 st x2)
  show ?case by (simp add: cleanUp_measure_def)
next
  case (3 st x x2)
  have "grown st x"
    using grown_dom(3) 3 by (auto split: option.splits)
  from grown_open_listeners [OF this] show ?case by (simp add: cleanUp_measure_def)
next
  case (4 winner st x)
  show ?case by (simp add: cleanUp_measure_def)
next
  case (5 s st)
  show ?case
    using open_listeners_close [OF 5] by (cases "registered s st = []") (auto simp: cleanUp_measure_def)
next
  case (6 symbol rest st)
  show ?case by (simp add: cleanUp_measure_def)
next
  case (7 symbol rest st x)
  have "grown st x" using grown_dom(2) 7 by simp
  from grown_open_listeners [OF this] show ?case by (auto simp: cleanUp_measure_def)
qed

section \<open>\<^verbatim>\<open>cleanUp\<close> and the \<^verbatim>\<open>disconnect\<close> listener\<close>

declare cleanUp.simps [simp del] announceWinnerByDisconnection.simps [simp del]
  disconnect.simps [simp del]

lemma emitToAll_eq:
  "emitToAll event data st = st\<lparr>trace := trace st @ map (\<lambda>s. Emit s event data) (connected st)\<rparr>"
  by (cases st) (simp add: emitToAll_def emit_def act_def connected_def split: option.splits)

lemma connected_trace [simp]: "connected (st\<lparr>trace := t\<rparr>) = connected st"
  by (simp add: connected_def)

lemma connected_board [simp]: "connected (st\<lparr>board := b\<rparr>) = connected st"
  by (simp add: connected_def)

lemma connected_disconnected [simp]: "connected (st\<lparr>disconnected := D\<rparr>) = connected st"
  by (simp add: connected_def)

lemma registered_fields [simp]:
  "registered s (st\<lparr>trace := t\<rparr>) = registered s st"
  "registered s (st\<lparr>board := b\<rparr>) = registered s st"
  "registered s (st\<lparr>disconnected := D\<rparr>) = registered s st"
  "registered s (st\<lparr>firstPlayerSocket := f\<rparr>) = registered s st"
  "registered s (st\<lparr>secondPlayerSocket := g\<rparr>) = registered s st"
  by (simp_all add: registered_def)

subsection \<open>What \<^verbatim>\<open>cleanUp\<close> keeps\<close>

lemma closing_call_mono:
  "set S \<subseteq> set S' \<Longrightarrow> closing_call S e \<Longrightarrow> closing_call S' e"
  by (cases e) auto

lemma kept_refl [simp]: "kept st st"
  by (simp add: kept_def)

lemma connected_kept:
  assumes "kept st st'"
  shows "set (connected st') \<subseteq> set (connected st)"
proof -
  from assms have f: "firstPlayerSocket st' = None \<or> firstPlayerSocket st' = firstPlayerSocket st"
    and g: "secondPlayerSocket st' = None \<or> secondPlayerSocket st' = secondPlayerSocket st"
    by (simp_all add: kept_def)
  from f g show ?thesis
    by (auto simp: connected_def split: option.splits)
qed

lemma kept_trans:
  assumes a: "kept st st'" and b: "kept st' st''"
  shows "kept st st''"
proof -
  from a obtain new where n: "trace st' = trace st @ new" "list_all (closing_call (connected st)) new"
    by (auto simp: kept_def)
  from b obtain new' where n': "trace st'' = trace st' @ new'"
    "list_all (closing_call (connected st')) new'"
    by (auto simp: kept_def)
  have "list_all (closing_call (connected st)) new'"
    using n'(2) closing_call_mono [OF connected_kept [OF a]] by (auto simp: list_all_iff)
  then have t: "\<exists>m. trace st'' = trace st @ m \<and> list_all (closing_call (connected st)) m"
    using n n'(1) by (intro exI [of _ "new @ new'"]) simp
  have "listeners st'' = listeners st" "crashed st'' = crashed st"
    "set (disconnected st) \<subseteq> set (disconnected st'')"
    "firstPlayerSocket st'' = None \<or> firstPlayerSocket st'' = firstPlayerSocket st"
    "secondPlayerSocket st'' = None \<or> secondPlayerSocket st'' = secondPlayerSocket st"
    "board st'' = board st \<or> board st'' = empty_board"
    using a b unfolding kept_def by auto
  with t show ?thesis unfolding kept_def by blast
qed

lemma kept_first: "kept st st' \<Longrightarrow> kept st (st'\<lparr>firstPlayerSocket := None\<rparr>)"
  by (simp add: kept_def)

lemma kept_second: "kept st st' \<Longrightarrow> kept st (st'\<lparr>secondPlayerSocket := None\<rparr>)"
  by (simp add: kept_def)

lemma kept_board: "kept st st' \<Longrightarrow> kept st (st'\<lparr>board := empty_board\<rparr>)"
  by (simp add: kept_def)

lemma kept_emitToAll: "kept st (emitToAll ''game_over'' d st)"
  by (simp add: kept_def emitToAll_eq list_all_iff)

lemma kept_close: "kept st ((act (Disconnect s) st)\<lparr>disconnected := s # disconnected st\<rparr>)"
  by (auto simp: kept_def act_def)

lemma kept_all:
  "kept st (cleanUp st)"
  "kept st (announceWinnerByDisconnection w st)"
  "kept st (disconnect s st)"
  "kept st (disconnect_listeners L st)"
proof (induction st and w st and s st and L st
    rule: cleanUp_announceWinnerByDisconnection_disconnect_disconnect_listeners.induct)
  case (1 st)
  define st1 where "st1 = (case firstPlayerSocket st of
                   Some s \<Rightarrow> (disconnect s st)\<lparr>firstPlayerSocket := None\<rparr>
                 | None \<Rightarrow> st)"
  define st2 where "st2 = (case secondPlayerSocket st1 of
                   Some s \<Rightarrow> (disconnect s st1)\<lparr>secondPlayerSocket := None\<rparr>
                 | None \<Rightarrow> st1)"
  have g1: "kept st st1"
    using "1.IH"(1) by (cases "firstPlayerSocket st") (simp_all add: st1_def kept_first)
  have g2: "kept st1 st2"
    using "1.IH"(2) [OF st1_def] by (cases "secondPlayerSocket st1") (simp_all add: st2_def kept_second)
  have "cleanUp st = st2\<lparr>board := empty_board\<rparr>"
    by (simp add: cleanUp.simps [of st] Let_def st1_def [symmetric] st2_def [symmetric]
        empty_board_def)
  then show ?case
    using kept_board [OF kept_trans [OF g1 g2]] by simp
next
  case (2 winner st)
  from kept_trans [OF kept_emitToAll "2.IH" [OF refl]] show ?case
    by (simp add: announceWinnerByDisconnection.simps [of winner st] Let_def)
next
  case (3 s st)
  show ?case
  proof (cases "s \<in> set (disconnected st)")
    case True
    then show ?thesis by (simp add: disconnect.simps [of s st])
  next
    case False
    from kept_trans [OF kept_close "3.IH" [OF False]] show ?thesis
      using False by (simp add: disconnect.simps [of s st])
  qed
next
  case (4 st)
  then show ?case by simp
next
  case (5 symbol rest st)
  show ?case
  proof (cases "crashed (announceWinnerByDisconnection (otherPlayerOrdinal symbol) st)")
    case True
    then show ?thesis
      using "5.IH"(1) by (simp add: Let_def)
  next
    case False
    from kept_trans [OF "5.IH"(1) "5.IH"(2) [OF refl False]] show ?thesis
      using False by (simp add: Let_def)
  qed
qed

lemma kept_ended: "kept st (ended st msg)"
  unfolding ended_def by (rule kept_trans [OF kept_emitToAll kept_all(1)])

lemma cleanUp_nulls:
  "firstPlayerSocket (cleanUp st) = None"
  "secondPlayerSocket (cleanUp st) = None"
  "board (cleanUp st) = empty_board"
proof -
  define st1 where "st1 = (case firstPlayerSocket st of
                   Some s \<Rightarrow> (disconnect s st)\<lparr>firstPlayerSocket := None\<rparr>
                 | None \<Rightarrow> st)"
  define st2 where "st2 = (case secondPlayerSocket st1 of
                   Some s \<Rightarrow> (disconnect s st1)\<lparr>secondPlayerSocket := None\<rparr>
                 | None \<Rightarrow> st1)"
  have c: "cleanUp st = st2\<lparr>board := empty_board\<rparr>"
    by (simp add: cleanUp.simps [of st] Let_def st1_def [symmetric] st2_def [symmetric]
        empty_board_def)
  have f1: "firstPlayerSocket st1 = None"
    by (cases "firstPlayerSocket st") (simp_all add: st1_def)
  have k: "kept st1 st2"
    using kept_all(3) by (cases "secondPlayerSocket st1") (simp_all add: st2_def kept_second)
  then have "firstPlayerSocket st2 = None" using f1 by (auto simp: kept_def)
  moreover have "secondPlayerSocket st2 = None"
    by (cases "secondPlayerSocket st1") (simp_all add: st2_def)
  ultimately show "firstPlayerSocket (cleanUp st) = None" "secondPlayerSocket (cleanUp st) = None"
    "board (cleanUp st) = empty_board"
    by (simp_all add: c)
qed

subsection \<open>The trace before a call does not matter\<close>

lemma shift_fields [simp]:
  "firstPlayerSocket (shift t st) = firstPlayerSocket st"
  "secondPlayerSocket (shift t st) = secondPlayerSocket st"
  "board (shift t st) = board st"
  "listeners (shift t st) = listeners st"
  "crashed (shift t st) = crashed st"
  "disconnected (shift t st) = disconnected st"
  "trace (shift t st) = t @ trace st"
  "connected (shift t st) = connected st"
  "registered s (shift t st) = registered s st"
  by (simp_all add: shift_def)






lemma shift_trace: "st\<lparr>trace := t\<rparr> = shift t (st\<lparr>trace := []\<rparr>)"
  by (simp add: shift_def)

subsection \<open>\<^verbatim>\<open>cleanUp\<close> in a game in progress\<close>

lemma disconnect_closed: "s \<in> set (disconnected st) \<Longrightarrow> disconnect s st = st"
  by (simp add: disconnect.simps [of s st])

lemma cleanUp_second_closed:
  assumes "firstPlayerSocket st = None" and "secondPlayerSocket st = Some c"
    and "c \<in> set (disconnected st)"
  shows "cleanUp st = st\<lparr>secondPlayerSocket := None, board := empty_board\<rparr>"
  using assms by (simp add: cleanUp.simps [of st] disconnect_closed empty_board_def)

lemma cleanUp_first_closed:
  assumes "firstPlayerSocket st = Some a" and "a \<in> set (disconnected st)"
  shows "cleanUp st = cleanUp (st\<lparr>firstPlayerSocket := None\<rparr>)"
  using assms
  by (simp add: cleanUp.simps [of st] cleanUp.simps [of "st\<lparr>firstPlayerSocket := None\<rparr>"]
      disconnect_closed)

lemma cleanUp_second_open:
  assumes "firstPlayerSocket st = None" and "secondPlayerSocket st = Some c"
    and "c \<notin> set (disconnected st)" and "registered c st = [''o'']"
  shows "cleanUp st =
           st\<lparr>secondPlayerSocket := None, board := empty_board,
              trace := trace st @ [Disconnect c, Emit c ''game_over'' (Str second_left)],
              disconnected := c # disconnected st\<rparr>"
  using assms
  by (simp add: cleanUp.simps [of st] disconnect.simps [of c st]
      announceWinnerByDisconnection.simps otherPlayerOrdinal_def second_left_def emitToAll_eq
      connected_def act_def cleanUp_second_closed empty_board_def Let_def)

lemma cleanUp_first_open_second_closed:
  assumes "firstPlayerSocket st = Some a" and "secondPlayerSocket st = Some c"
    and "a \<notin> set (disconnected st)" and "c \<in> set (disconnected st)"
    and "registered a st = [''x'']"
  shows "cleanUp st =
           st\<lparr>firstPlayerSocket := None, secondPlayerSocket := None, board := empty_board,
              trace := trace st @ [Disconnect a, Emit a ''game_over'' (Str first_left),
                                   Emit c ''game_over'' (Str first_left)],
              disconnected := a # disconnected st\<rparr>"
  using assms
  by (simp add: cleanUp.simps [of st] disconnect.simps [of a st]
      announceWinnerByDisconnection.simps otherPlayerOrdinal_def first_left_def emitToAll_eq
      connected_def act_def cleanUp_first_closed cleanUp_second_closed empty_board_def Let_def)

lemma cleanUp_first_closed_second_open:
  assumes "firstPlayerSocket st = Some a" and "secondPlayerSocket st = Some c"
    and "a \<in> set (disconnected st)" and "c \<notin> set (disconnected st)"
    and "registered c st = [''o'']"
  shows "cleanUp st =
           st\<lparr>firstPlayerSocket := None, secondPlayerSocket := None, board := empty_board,
              trace := trace st @ [Disconnect c, Emit c ''game_over'' (Str second_left)],
              disconnected := c # disconnected st\<rparr>"
  using assms
  by (simp add: cleanUp_first_closed cleanUp_second_open)

lemma cleanUp_playing:
  assumes "playing st a c"
  shows "cleanUp st =
           st\<lparr>firstPlayerSocket := None, secondPlayerSocket := None, board := empty_board,
              trace := trace st @ close_both a c,
              disconnected := c # a # disconnected st\<rparr>"
proof -
  from assms have f: "firstPlayerSocket st = Some a" and g: "secondPlayerSocket st = Some c"
    and ac: "a \<noteq> c" and oa: "a \<notin> set (disconnected st)" and oc: "c \<notin> set (disconnected st)"
    and ra: "registered a st = [''x'']" and rc: "registered c st = [''o'']"
    by (simp_all add: playing_def)
  define st_e where "st_e = emitToAll ''game_over'' (Str first_left)
       ((act (Disconnect a) st)\<lparr>disconnected := a # disconnected st\<rparr>)"
  define X where "X = st_e\<lparr>firstPlayerSocket := None, secondPlayerSocket := None,
              board := empty_board,
              trace := trace st_e @ [Disconnect c, Emit c ''game_over'' (Str second_left)],
              disconnected := c # disconnected st_e\<rparr>"
  have "disconnect a st = cleanUp st_e"
    using oa ra
    by (simp add: disconnect.simps [of a st] announceWinnerByDisconnection.simps
        otherPlayerOrdinal_def first_left_def Let_def st_e_def)
  also have "cleanUp st_e = X"
    unfolding X_def
    by (rule cleanUp_first_closed_second_open [where a = a])
      (use f g ac oc rc in \<open>simp_all add: st_e_def emitToAll_eq act_def\<close>)
  finally have d: "disconnect a st = X" .
  have "secondPlayerSocket X = None" by (simp add: X_def)
  then have "cleanUp st = X\<lparr>firstPlayerSocket := None, board := empty_board\<rparr>"
    using f by (simp add: cleanUp.simps [of st] d empty_board_def)
  also have "\<dots> = st\<lparr>firstPlayerSocket := None, secondPlayerSocket := None, board := empty_board,
              trace := trace st @ close_both a c,
              disconnected := c # a # disconnected st\<rparr>"
    using f g
    by (cases st) (simp add: X_def st_e_def emitToAll_eq act_def connected_def close_both_def)
  finally show ?thesis .
qed

lemma ended_playing:
  assumes "playing st a c"
  shows "ended st msg =
           st\<lparr>firstPlayerSocket := None, secondPlayerSocket := None, board := empty_board,
              trace := trace st @ [Emit a ''game_over'' (Str msg), Emit c ''game_over'' (Str msg)]
                       @ close_both a c,
              disconnected := c # a # disconnected st\<rparr>"
proof -
  have p: "playing (emitToAll ''game_over'' (Str msg) st) a c"
    using assms by (simp add: playing_def emitToAll_eq)
  have c: "connected st = [a, c]" using assms by (simp add: playing_def connected_def)
  show ?thesis
    by (simp add: ended_def cleanUp_playing [OF p]) (simp add: emitToAll_eq c)
qed


section \<open>Lemmas about the model\<close>

lemma round_double_small [simp]:
  "round_double 0 = Num 0" "round_double 1 = Num 1" "round_double 2 = Num 2"
  "round_double 3 = Num 3" "round_double (- 1) = Num (- 1)" "round_double (- 2) = Num (- 2)"
  "round_double (- 3) = Num (- 3)"
  by code_simp+

lemma cell_score_cases:
  "cell_score b i = Num 1 \<and> at_index b i = Some ''x''
   \<or> cell_score b i = Num (- 1) \<and> at_index b i = Some ''o''
   \<or> cell_score b i = NaN \<and> at_index b i \<noteq> Some ''x'' \<and> at_index b i \<noteq> Some ''o''"
  by (simp add: cell_score_def ToNumber_def symbolToScore_def)

lemma sum3_x:
  "(js_add (js_add (js_add (Num 0) (cell_score b i)) (cell_score b j)) (cell_score b k) = Num 3)
   = filled b ''x'' [i, j, k]"
  using cell_score_cases [of b i] cell_score_cases [of b j] cell_score_cases [of b k]
  by (auto simp: filled_def)

lemma sum3_o:
  "(js_add (js_add (js_add (Num 0) (cell_score b i)) (cell_score b j)) (cell_score b k) = Num (- 3))
   = filled b ''o'' [i, j, k]"
  using cell_score_cases [of b i] cell_score_cases [of b j] cell_score_cases [of b k]
  by (auto simp: filled_def)

lemma diag3_x:
  "(js_add (js_add (cell_score b i) (cell_score b j)) (cell_score b k) = Num 3)
   = filled b ''x'' [i, j, k]"
  using cell_score_cases [of b i] cell_score_cases [of b j] cell_score_cases [of b k]
  by (auto simp: filled_def)

lemma diag3_o:
  "(js_add (js_add (cell_score b i) (cell_score b j)) (cell_score b k) = Num (- 3))
   = filled b ''o'' [i, j, k]"
  using cell_score_cases [of b i] cell_score_cases [of b j] cell_score_cases [of b k]
  by (auto simp: filled_def)

lemma rowSum_eq:
  "rowSum b r = js_add (js_add (js_add (Num 0) (cell_score b (r * 3))) (cell_score b (r * 3 + 1)))
                  (cell_score b (r * 3 + 2))"
  by (simp add: rowSum_def js_plus_def cell_score_def ToNumber_def)

lemma colSum_eq:
  "colSum b c = js_add (js_add (js_add (Num 0) (cell_score b c)) (cell_score b (3 + c)))
                  (cell_score b (6 + c))"
  by (simp add: colSum_def js_plus_def cell_score_def ToNumber_def)

lemma diagonal1Sum_eq:
  "diagonal1Sum b = js_add (js_add (cell_score b 0) (cell_score b 4)) (cell_score b 8)"
  by (simp add: diagonal1Sum_def js_plus_def cell_score_def ToNumber_def)

lemma diagonal2Sum_eq:
  "diagonal2Sum b = js_add (js_add (cell_score b 2) (cell_score b 4)) (cell_score b 6)"
  by (simp add: diagonal2Sum_def js_plus_def cell_score_def ToNumber_def)

lemma js_eq_Num [simp]: "js_eq s (Num k) = (s = Num k)"
  by (cases s) auto

lemma determine_row: "determineWinnerFromSum (rowSum b r) st = scan_line b [r * 3, r * 3 + 1, r * 3 + 2] st"
  by (simp add: determineWinnerFromSum_def rowSum_eq sum3_x sum3_o scan_line_def)

lemma determine_col: "determineWinnerFromSum (colSum b c) st = scan_line b [c, 3 + c, 6 + c] st"
  by (simp add: determineWinnerFromSum_def colSum_eq sum3_x sum3_o scan_line_def)

lemma determine_diag1: "determineWinnerFromSum (diagonal1Sum b) st = scan_line b [0, 4, 8] st"
  by (simp add: determineWinnerFromSum_def diagonal1Sum_eq diag3_x diag3_o scan_line_def)

lemma determine_diag2: "determineWinnerFromSum (diagonal2Sum b) st = scan_line b [2, 4, 6] st"
  by (simp add: determineWinnerFromSum_def diagonal2Sum_eq diag3_x diag3_o scan_line_def)

lemma unoccupiedLeft_iff: "unoccupiedLeft b = (''.'' \<in> set b)"
  by (induction b) auto

lemma scan_lines_append:
  "scan_lines (xs @ ys) st = (case scan_lines xs st of Some r \<Rightarrow> Some r | None \<Rightarrow> scan_lines ys st)"
  by (induction xs) auto

lemma scan_lines_fst: "scan_lines ls st = Some r \<Longrightarrow> fst r"
  by (induction ls) (auto split: if_splits)

lemma checkRows_scan:
  "checkRows rs st = (case scan_lines (row_lines rs) st of Some r \<Rightarrow> r | None \<Rightarrow> (False, st))"
  by (induction rs) (auto simp: determine_row scan_line_def row_lines_def)

lemma checkCols_scan:
  "checkCols cs st = (case scan_lines (col_lines cs) st of Some r \<Rightarrow> r | None \<Rightarrow> (False, st))"
  by (induction cs) (auto simp: determine_col scan_line_def col_lines_def)

lemma scan_single:
  "determineWinnerFromSum (diagonal1Sum (board st)) st =
     (case scan_lines [[0, 4, 8]] st of Some r \<Rightarrow> r | None \<Rightarrow> (False, st))"
  "determineWinnerFromSum (diagonal2Sum (board st)) st =
     (case scan_lines [[2, 4, 6]] st of Some r \<Rightarrow> r | None \<Rightarrow> (False, st))"
  by (simp_all add: determine_diag1 determine_diag2 scan_line_def)

lemma lines_split:
  "lines = row_lines [0, 1, 2] @ col_lines [0, 1, 2] @ [[0, 4, 8]] @ [[2, 4, 6]]"
  by (simp add: lines_def row_lines_def col_lines_def)

lemma checkForGameOver_scan:
  "checkForGameOver st =
     (case scan_lines lines st of
        Some r \<Rightarrow> r
      | None \<Rightarrow> if ''.'' \<in> set (board st) then (False, st) else (True, announceTie st))"
proof -
  note defs = checkForGameOver_def checkRows_scan checkCols_scan scan_single lines_split
    scan_lines_append
  show ?thesis
  proof (cases "scan_lines (row_lines [0, 1, 2]) st")
    case (Some r)
    then obtain s where r: "r = (True, s)" using scan_lines_fst [OF Some] by (cases r) auto
    show ?thesis
      by (simp only: defs Some r option.case prod.case bool.case)
  next
    case rows: None
    show ?thesis
    proof (cases "scan_lines (col_lines [0, 1, 2]) st")
      case (Some r)
      then obtain s where r: "r = (True, s)" using scan_lines_fst [OF Some] by (cases r) auto
      show ?thesis
        by (simp only: defs rows Some r option.case prod.case bool.case)
    next
      case cols: None
      show ?thesis
      proof (cases "scan_lines [[0, 4, 8]] st")
        case (Some r)
        then obtain s where r: "r = (True, s)" using scan_lines_fst [OF Some] by (cases r) auto
        show ?thesis
          by (simp only: defs rows cols Some r option.case prod.case bool.case)
      next
        case d1: None
        show ?thesis
        proof (cases "scan_lines [[2, 4, 6]] st")
          case (Some r)
          then obtain s where r: "r = (True, s)" using scan_lines_fst [OF Some] by (cases r) auto
          show ?thesis
            by (simp only: defs rows cols d1 Some r option.case prod.case bool.case)
        next
          case d2: None
          show ?thesis
            by (simp only: defs rows cols d1 d2 option.case prod.case bool.case
                unoccupiedLeft_iff)
        qed
      qed
    qed
  qed
qed

lemma announceWinner_eq: "announceWinner who st = ended st (''won by '' @ who @ '' player'')"
  by (simp add: announceWinner_def ended_def)

lemma announceTie_eq: "announceTie st = ended st ''is tied''"
  by (simp add: announceTie_def ended_def)

lemma announceWinnerByResignation_eq:
  "announceWinnerByResignation winner st = ended st (''won by '' @ winner @ '' player due to resignation'')"
  by (simp add: announceWinnerByResignation_def ended_def)

lemma announceWinnerByDisconnection_eq:
  "announceWinnerByDisconnection winner st =
     ended st (''won by '' @ winner @ '' player since ''
               @ (if winner = ''first'' then ''second'' else ''first'') @ '' player disconnected'')"
  by (simp add: announceWinnerByDisconnection.simps ended_def Let_def)

lemma scan_lines_find:
  "scan_lines ls st =
     (case find (complete (board st)) ls of
        None \<Rightarrow> None
      | Some l \<Rightarrow> Some (True, announceWinner (if filled (board st) ''x'' l then ''first'' else ''second'') st))"
  by (induction ls) (auto simp: complete_def)

lemma checkForGameOver_outcome:
  "checkForGameOver st = (case outcome (board st) of Some msg \<Rightarrow> (True, ended st msg) | None \<Rightarrow> (False, st))"
  by (simp add: checkForGameOver_scan scan_lines_find outcome_def announceWinner_eq announceTie_eq
      split: option.splits)

lemma crashed_ended [simp]: "crashed (ended st msg) = crashed st"
  using kept_ended [of st msg] by (simp add: kept_def)

lemma crashed_act [simp]: "crashed (act a st) = crashed st"
  by (simp add: act_def)

lemma on_turn_taken_rejected:
  assumes "\<not> crashed st" and "rejected (verdict_of (board st) raw)"
  shows "on_turn_taken s symbol raw next st
         = call_next next s
             (st\<lparr>trace := trace st @ [Emit s ''turn'' (Str (rejection_reason (verdict_of (board st) raw)))]\<rparr>)"
proof -
  define position where "position = js_sub (Number_js raw) (Num 1)"
  have v: "verdict_of (board st) raw = verdict_at (board st) position"
    by (simp add: verdict_of_def position_def)
  have rej: "rejected (verdict_at (board st) position)" using assms(2) v by simp
  show ?thesis
  proof (cases "isNaN position")
    case True
    then show ?thesis using assms(1)
      by (simp add: on_turn_taken_def v position_def [symmetric] verdict_at_def emit_def act_def)
  next
    case nan: False
    show ?thesis
    proof (cases "js_lt position (Num 0) \<or> js_ge position (Num (of_nat (length (board st))))")
      case True
      then show ?thesis using assms(1) nan
        by (simp add: on_turn_taken_def v position_def [symmetric] verdict_at_def emit_def act_def)
    next
      case inb: False
      from rej nan inb have "js_index (board st) position \<noteq> Some ''.''"
        by (auto simp: verdict_at_def js_index_def split: option.splits if_splits)
      moreover from rej nan inb have "verdict_at (board st) position = Occupied"
        by (auto simp: verdict_at_def split: option.splits if_splits)
      ultimately show ?thesis using assms(1) nan inb
        by (simp add: on_turn_taken_def v position_def [symmetric] emit_def act_def)
    qed
  qed
qed

lemma accepted_index:
  assumes "verdict_at b position = Accepted i"
  shows "\<not> isNaN position" and "\<not> js_lt position (Num 0)"
    and "\<not> js_ge position (Num (of_nat (length b)))"
    and "array_index b position = Some i" and "b ! i = ''.''" and "i < length b"
  using assms
  by (auto simp: verdict_at_def array_index_def split: option.splits if_splits jsnum.splits)

lemma place_symbol_eq:
  assumes "array_index (board st) position = Some i"
  shows "place_symbol symbol position st
         = (let b' = (board st)[i := symbol];
                st2 = st\<lparr>board := b',
                         trace := trace st @ map (\<lambda>t. Emit t ''board_update'' (Board b')) (connected st)\<rparr>
            in case outcome b' of
                 Some msg \<Rightarrow> ended st2 msg
               | None \<Rightarrow> emit (if symbol = ''x'' then secondPlayerSocket st
                                else firstPlayerSocket st) ''turn'' Null st2)"
  using assms
  by (simp add: place_symbol_def js_store_def emitToAll_eq checkForGameOver_outcome Let_def
      split: option.splits)

lemma on_turn_taken_accepted:
  assumes "\<not> crashed st" and "verdict_of (board st) raw = Accepted i"
  shows "on_turn_taken s symbol raw next st
         = (let b' = (board st)[i := symbol];
                st2 = st\<lparr>board := b',
                         trace := trace st @ map (\<lambda>t. Emit t ''board_update'' (Board b')) (connected st)\<rparr>
            in case outcome b' of
                 Some msg \<Rightarrow> call_next next s (ended st2 msg)
               | None \<Rightarrow>
                   (let st3 = emit (if symbol = ''x'' then secondPlayerSocket st
                                    else firstPlayerSocket st) ''turn'' Null st2
                    in if crashed st3 then st3 else call_next next s st3))"
proof -
  define position where "position = js_sub (Number_js raw) (Num 1)"
  have v: "verdict_at (board st) position = Accepted i"
    using assms(2) by (simp add: verdict_of_def position_def)
  note a = accepted_index [OF v]
  have idx: "js_index (board st) position = Some ''.''"
    using a by (simp add: js_index_def)
  have "on_turn_taken s symbol raw next st
        = (let st' = place_symbol symbol position st in if crashed st' then st' else call_next next s st')"
    using a idx by (simp add: on_turn_taken_def position_def [symmetric])
  then show ?thesis using assms(1)
    by (simp add: place_symbol_eq [OF a(4)] Let_def split: option.splits)
qed

lemma connected_both:
  "firstPlayerSocket st = Some a \<Longrightarrow> secondPlayerSocket st = Some c \<Longrightarrow> connected st = [a, c]"
  by (simp add: connected_def)

lemma outcome_tie:
  assumes "\<forall>l \<in> set lines. \<not> complete b l" and "''.'' \<notin> set b"
  shows "outcome b = Some ''is tied''"
proof -
  from assms(1) have "find (complete b) lines = None" by (simp add: find_None_iff)
  with assms(2) show ?thesis by (simp add: outcome_def)
qed

lemma verdict_examples:
  "verdict_of b (JStr ''abc'') = Unparseable"
  "verdict_of [''x'', ''o'', ''x'', ''x'', ''o'', ''o'', ''o'', ''x'', ''.''] (JStr ''9'') = Accepted 8"
  "verdict_of empty_board (JStr ''0'') = OutOfBounds"
  "verdict_of empty_board (JStr ''10'') = OutOfBounds"
  "verdict_of empty_board (JStr ''-3'') = OutOfBounds"
  "verdict_of empty_board (JStr ''1.5'') = Occupied"
  "verdict_of empty_board (JStr []) = OutOfBounds"
  "verdict_of empty_board JNull = OutOfBounds"
  "verdict_of empty_board (JStr ''1'') = Accepted 0"
  by code_simp+

lemma trace_call_next:
  "trace (call_next next s st) = trace st @ [if next then Ack s else Throw ''TypeError'']"
  by (simp add: call_next_def act_def throw_def)

lemma board_first_updates:
  "board_first b seen (map (\<lambda>t. Emit t ''board_update'' (Board b)) cs @ rest)
   = board_first b (rev cs @ seen) rest"
  by (induction cs arbitrary: seen) simp_all

lemma board_first_overs:
  "board_first b seen (map (\<lambda>t. Emit t ''game_over'' (Str m)) cs @ rest)
   = (set cs \<subseteq> set seen \<and> board_first b seen rest)"
  by (induction cs) auto

lemma board_first_disconnects:
  "board_first b seen (map Disconnect cs @ rest) = board_first b seen rest"
  by (induction cs) auto

lemma board_first_closing:
  "list_all (closing_call S) as \<Longrightarrow> set S \<subseteq> set seen
   \<Longrightarrow> board_first b seen (as @ rest) = board_first b seen rest"
proof (induction as)
  case Nil
  then show ?case by simp
next
  case (Cons e as)
  then show ?case by (cases e) auto
qed

lemma trace_ended:
  "\<exists>rest. trace (ended st msg)
          = trace st @ map (\<lambda>t. Emit t ''game_over'' (Str msg)) (connected st) @ rest
        \<and> list_all (closing_call (connected st)) rest"
proof -
  have "kept (emitToAll ''game_over'' (Str msg) st) (ended st msg)"
    unfolding ended_def by (rule kept_all(1))
  then show ?thesis by (auto simp: kept_def emitToAll_eq)
qed

lemma new_trace_over:
  assumes "\<not> crashed st" and "verdict_of (board st) raw = Accepted i"
    and "outcome ((board st)[i := symbol]) = Some msg"
  shows "\<exists>rest. trace (on_turn_taken s symbol raw next st)
         = trace st
           @ (map (\<lambda>t. Emit t ''board_update'' (Board ((board st)[i := symbol]))) (connected st)
              @ map (\<lambda>t. Emit t ''game_over'' (Str msg)) (connected st)
              @ rest
              @ [if next then Ack s else Throw ''TypeError''])
         \<and> list_all (closing_call (connected st)) rest"
proof -
  define st2 where "st2 = st\<lparr>board := (board st)[i := symbol],
      trace := trace st @ map (\<lambda>t. Emit t ''board_update'' (Board ((board st)[i := symbol])))
                             (connected st)\<rparr>"
  from trace_ended [of st2 msg] obtain rest where
    r: "trace (ended st2 msg)
        = trace st2 @ map (\<lambda>t. Emit t ''game_over'' (Str msg)) (connected st2) @ rest"
       "list_all (closing_call (connected st2)) rest"
    by blast
  have c: "connected st2 = connected st" by (simp add: st2_def)
  have "trace (on_turn_taken s symbol raw next st)
        = trace (ended st2 msg) @ [if next then Ack s else Throw ''TypeError'']"
    by (simp add: on_turn_taken_accepted [OF assms(1,2)] assms(3) Let_def trace_call_next
        st2_def)
  with r c show ?thesis by (intro exI [of _ rest]) (simp add: st2_def)
qed

lemma new_trace_on:
  assumes "\<not> crashed st" and "verdict_of (board st) raw = Accepted i"
    and "outcome ((board st)[i := symbol]) = None"
  shows "\<exists>rest. trace (on_turn_taken s symbol raw next st)
         = trace st
           @ (map (\<lambda>t. Emit t ''board_update'' (Board ((board st)[i := symbol]))) (connected st)
              @ rest)
         \<and> board_first ((board st)[i := symbol]) (rev (connected st)) rest"
proof -
  let ?t = "if symbol = ''x'' then secondPlayerSocket st else firstPlayerSocket st"
  show ?thesis
  proof (cases ?t)
    case None
    then show ?thesis
      by (simp add: on_turn_taken_accepted [OF assms(1,2)] assms(3) Let_def emit_def throw_def act_def)
  next
    case (Some u)
    then show ?thesis using assms(1)
      by (simp add: on_turn_taken_accepted [OF assms(1,2)] assms(3) Let_def emit_def act_def
          trace_call_next)
  qed
qed

lemma board_call_next [simp]: "board (call_next next s st) = board st"
  by (simp add: call_next_def act_def throw_def)

lemma board_emit [simp]: "board (emit t ev d st) = board st"
  by (simp add: emit_def act_def throw_def split: option.splits)

lemma board_ended [simp]: "board (ended st msg) = empty_board"
  by (simp add: ended_def cleanUp_nulls)

lemma board_on_turn_taken:
  assumes "\<not> crashed st"
  shows "board (on_turn_taken s symbol raw next st) = board st
         \<or> board (on_turn_taken s symbol raw next st) = empty_board
         \<or> (\<exists>i < length (board st). board st ! i = ''.''
               \<and> board (on_turn_taken s symbol raw next st) = (board st)[i := symbol])"
proof (cases "verdict_of (board st) raw")
  case (Accepted i)
  then have "verdict_at (board st) (js_sub (Number_js raw) (Num 1)) = Accepted i"
    by (simp add: verdict_of_def)
  from accepted_index(5,6) [OF this] show ?thesis
    by (auto simp: on_turn_taken_accepted [OF assms Accepted] Let_def split: option.splits)
qed (use assms in \<open>simp_all add: on_turn_taken_rejected\<close>)

lemma board_listeners:
  "board (on_disconnect symbol st) = empty_board"
  "board (on_resign symbol st) = empty_board"
  "board (on_turn_error symbol err st) = empty_board"
  "board (cleanUp st) = empty_board"
  "board (on_connection s st) = board st"
  by (simp_all add: on_disconnect_def on_resign_def on_turn_error_def
      announceWinnerByDisconnection_eq announceWinnerByResignation_eq cleanUp_nulls
      on_connection_def setupSocket_def Let_def)

lemma listeners_call_next [simp]: "listeners (call_next next s st) = listeners st"
  by (simp add: call_next_def act_def throw_def)

lemma listeners_emit [simp]: "listeners (emit t ev d st) = listeners st"
  by (simp add: emit_def act_def throw_def split: option.splits)

lemma listeners_ended [simp]: "listeners (ended st msg) = listeners st"
  using kept_ended [of st msg] by (simp add: kept_def)

lemma listeners_on_turn_taken:
  assumes "\<not> crashed st"
  shows "listeners (on_turn_taken s symbol raw next st) = listeners st"
proof (cases "verdict_of (board st) raw")
  case (Accepted i)
  show ?thesis
    by (simp add: on_turn_taken_accepted [OF assms Accepted] Let_def split: option.splits)
qed (use assms in \<open>simp_all add: on_turn_taken_rejected\<close>)

lemma listeners_leave:
  "listeners (on_disconnect symbol st) = listeners st"
  "listeners (on_resign symbol st) = listeners st"
  "listeners (on_turn_error symbol err st) = listeners st"
  by (simp_all add: on_disconnect_def on_resign_def on_turn_error_def
      announceWinnerByDisconnection_eq announceWinnerByResignation_eq Let_def act_def)

lemma well_formed_empty: "length empty_board = 9" "set empty_board = {''.''}"
  by (simp_all add: empty_board_def)

lemma no_line_empty: "l \<in> set lines \<Longrightarrow> \<not> complete empty_board l"
  by (auto simp: lines_def complete_def filled_def at_index_def empty_board_def)

lemma outcome_None_no_line: "outcome b = None \<Longrightarrow> l \<in> set lines \<Longrightarrow> \<not> complete b l"
  by (auto simp: outcome_def find_None_iff split: option.splits if_splits)

lemma lines_on_turn_taken:
  assumes "\<not> crashed st" and "\<forall>l \<in> set lines. \<not> complete (board st) l"
  shows "\<forall>l \<in> set lines. \<not> complete (board (on_turn_taken s symbol raw next st)) l"
proof (cases "verdict_of (board st) raw")
  case (Accepted i)
  show ?thesis
  proof (cases "outcome ((board st)[i := symbol])")
    case None
    then show ?thesis
      using outcome_None_no_line [OF None]
      by (simp add: on_turn_taken_accepted [OF assms(1) Accepted] Let_def)
  next
    case (Some msg)
    then show ?thesis
      by (simp add: on_turn_taken_accepted [OF assms(1) Accepted] Let_def no_line_empty)
  qed
qed (use assms in \<open>simp_all add: on_turn_taken_rejected\<close>)

lemma well_formed_on_turn_taken:
  assumes "well_formed st" and "\<not> crashed st" and "symbol = ''x'' \<or> symbol = ''o''"
  shows "well_formed (on_turn_taken s symbol raw next st)"
proof -
  from board_on_turn_taken [OF assms(2), of s symbol raw "next"]
  have "length (board (on_turn_taken s symbol raw next st)) = 9
        \<and> set (board (on_turn_taken s symbol raw next st)) \<subseteq> {''x'', ''o'', ''.''}"
  proof (elim disjE exE conjE)
    fix i assume "board (on_turn_taken s symbol raw next st) = (board st)[i := symbol]"
    moreover have "set ((board st)[i := symbol]) \<subseteq> insert symbol (set (board st))"
      by (rule set_update_subset_insert)
    ultimately show ?thesis using assms(1,3) by (auto simp: well_formed_def)
  qed (use assms(1) in \<open>auto simp: well_formed_def well_formed_empty\<close>)
  moreover have "\<forall>l \<in> set lines. \<not> complete (board (on_turn_taken s symbol raw next st)) l"
    using assms(1) by (intro lines_on_turn_taken [OF assms(2)]) (simp add: well_formed_def)
  ultimately show ?thesis
    using assms(1) by (simp add: well_formed_def listeners_on_turn_taken [OF assms(2)])
qed

lemma well_formed_leave:
  assumes "well_formed st"
  shows "well_formed (on_disconnect symbol st)" "well_formed (on_resign symbol st)"
    "well_formed (on_turn_error symbol err st)"
  using assms
  by (simp_all add: well_formed_def board_listeners listeners_leave well_formed_empty no_line_empty)

lemma well_formed_on_connection:
  assumes "well_formed st"
  shows "well_formed (on_connection s st)"
  using assms
  by (auto simp: well_formed_def board_listeners on_connection_def setupSocket_def Let_def)

lemma well_formed_run_listeners:
  assumes "\<And>symbol st. well_formed st \<Longrightarrow> \<not> crashed st \<Longrightarrow> symbol \<in> set syms \<Longrightarrow> well_formed (h symbol st)"
    and "well_formed st" and "\<not> crashed st"
  shows "well_formed (run_listeners h syms st)"
  using assms
proof (induction syms arbitrary: st)
  case Nil
  then show ?case by simp
next
  case (Cons symbol rest)
  have w: "well_formed (h symbol st)" using Cons.prems by simp
  show ?case
  proof (cases "crashed (h symbol st)")
    case True
    then show ?thesis using w by (simp add: Let_def)
  next
    case False
    have "well_formed (run_listeners h rest (h symbol st))"
      using Cons.prems(1) w False by (intro Cons.IH) auto
    then show ?thesis using False by (simp add: Let_def)
  qed
qed

lemma registered_symbols:
  "well_formed st \<Longrightarrow> symbol \<in> set (registered s st) \<Longrightarrow> symbol = ''x'' \<or> symbol = ''o''"
  by (auto simp: well_formed_def registered_def)

lemma well_formed_disconnected [simp]:
  "well_formed (st\<lparr>disconnected := D\<rparr>) = well_formed st"
  by (simp add: well_formed_def)

lemma well_formed_step:
  assumes "well_formed st"
  shows "well_formed (step ev st)"
proof (cases "crashed st")
  case True
  then show ?thesis using assms by (simp add: step_def)
next
  case False
  show ?thesis
  proof (cases ev)
    case (Connection s)
    then show ?thesis using assms False by (simp add: step_def well_formed_on_connection)
  next
    case (TurnTaken s raw "next")
    have "well_formed (run_listeners (\<lambda>symbol. on_turn_taken s symbol raw next) (registered s st) st)"
      using assms False
      by (intro well_formed_run_listeners well_formed_on_turn_taken)
         (auto dest: registered_symbols [OF assms])
    then show ?thesis using TurnTaken False assms by (simp add: step_def)
  next
    case (Resign s)
    have "well_formed (run_listeners on_resign (registered s st) st)"
      using assms False by (intro well_formed_run_listeners well_formed_leave) auto
    then show ?thesis using Resign False assms by (simp add: step_def)
  next
    case (TurnError s err)
    have "well_formed (run_listeners (\<lambda>symbol. on_turn_error symbol err) (registered s st) st)"
      using assms False by (intro well_formed_run_listeners well_formed_leave) auto
    then show ?thesis using TurnError False assms by (simp add: step_def)
  next
    case (Disconnection s)
    have "well_formed (run_listeners on_disconnect (registered s st)
            (st\<lparr>disconnected := s # disconnected st\<rparr>))"
      using assms False by (intro well_formed_run_listeners well_formed_leave) auto
    then show ?thesis using Disconnection False assms by (simp add: step_def)
  qed
qed

lemma well_formed_run: "well_formed st \<Longrightarrow> well_formed (run evs st)"
  unfolding run_def by (induction evs arbitrary: st) (simp_all add: well_formed_step)

lemma well_formed_initial: "well_formed initial_state"
  using no_line_empty by (simp add: well_formed_def initial_state_def well_formed_empty)

lemma round_double_not_NaN: "round_double q \<noteq> NaN"
  by (simp add: round_double_def Let_def split: prod.splits)

lemma js_sub_NaN: "(js_sub n (Num k) = NaN) = (n = NaN)"
  by (cases n) (simp_all add: round_double_not_NaN)

lemma start:
  "run [Connection 1, Connection 2] initial_state
   = \<lparr>firstPlayerSocket = Some 1, secondPlayerSocket = Some 2, board = empty_board,
      listeners = [(1, ''x''), (2, ''o'')],
      trace = [Emit 1 ''game_start'' (Str ''first''), Emit 2 ''game_start'' (Str ''second''),
               Emit 1 ''turn'' Null],
      crashed = False, disconnected = []\<rparr>"
  by (simp add: run_def step_def initial_state_def on_connection_def setupSocket_def emit_def
      act_def Let_def)


lemma emit_shift: "emit target ev d (shift t st) = shift t (emit target ev d st)"
  by (simp add: emit_def act_def throw_def shift_def split: option.splits)

lemma crashed_emit_shift [simp]:
  "crashed (emit target ev d (shift t st)) = crashed (emit target ev d st)"
  by (simp add: emit_shift)



lemma at_index_update:
  "at_index (b[i := s]) j = (if j = i \<and> i < length b then Some s else at_index b j)"
  by (auto simp: at_index_def)

lemma filled_update_other: "i \<notin> set l \<Longrightarrow> filled (b[i := s]) m l = filled b m l"
  by (induction l) (auto simp: filled_def at_index_update)

lemma filled_update_self: "i \<in> set l \<Longrightarrow> filled (b[i := s]) m l \<Longrightarrow> s = m"
  by (induction l) (auto simp: filled_def at_index_update at_index_def split: if_splits)

lemma line_of_the_mover:
  assumes "\<forall>l \<in> set lines. \<not> complete b l" and "b ! i = ''.''"
    and "l \<in> set lines" and "filled (b[i := s]) m l" and "m = ''x'' \<or> m = ''o''"
  shows "s = m"
proof (cases "i \<in> set l")
  case True
  then show ?thesis using assms(4) by (rule filled_update_self)
next
  case False
  then have "filled b m l" using assms(4) by (simp add: filled_update_other)
  then have "complete b l" using assms(5) by (auto simp: complete_def)
  then show ?thesis using assms(1,3) by blast
qed

lemma playing_trace [simp]: "playing (st\<lparr>trace := t\<rparr>) a c = playing st a c"
  by (simp add: playing_def)

lemma playing_board [simp]: "playing (st\<lparr>board := b\<rparr>) a c = playing st a c"
  by (simp add: playing_def)

lemma playing_connected: "playing st a c \<Longrightarrow> connected st = [a, c]"
  by (simp add: playing_def connected_def)

lemma ended_first_gone:
  assumes "playing st a c"
  shows "ended (st\<lparr>disconnected := a # disconnected st\<rparr>) msg
         = st\<lparr>firstPlayerSocket := None, secondPlayerSocket := None, board := empty_board,
              trace := trace st @ [Emit a ''game_over'' (Str msg), Emit c ''game_over'' (Str msg),
                                   Disconnect c, Emit c ''game_over'' (Str second_left)],
              disconnected := c # a # disconnected st\<rparr>"
proof -
  define st_e where
    "st_e = emitToAll ''game_over'' (Str msg) (st\<lparr>disconnected := a # disconnected st\<rparr>)"
  from assms have f: "firstPlayerSocket st = Some a" and g: "secondPlayerSocket st = Some c"
    and ac: "a \<noteq> c" and oc: "c \<notin> set (disconnected st)" and rc: "registered c st = [''o'']"
    by (simp_all add: playing_def)
  have "cleanUp st_e
        = st_e\<lparr>firstPlayerSocket := None, secondPlayerSocket := None, board := empty_board,
              trace := trace st_e @ [Disconnect c, Emit c ''game_over'' (Str second_left)],
              disconnected := c # disconnected st_e\<rparr>"
    by (rule cleanUp_first_closed_second_open [where a = a])
      (use f g ac oc rc in \<open>simp_all add: st_e_def emitToAll_eq\<close>)
  also have "\<dots> = st\<lparr>firstPlayerSocket := None, secondPlayerSocket := None, board := empty_board,
              trace := trace st @ [Emit a ''game_over'' (Str msg), Emit c ''game_over'' (Str msg),
                                   Disconnect c, Emit c ''game_over'' (Str second_left)],
              disconnected := c # a # disconnected st\<rparr>"
    using f g by (cases st) (simp add: st_e_def emitToAll_eq connected_def)
  finally show ?thesis by (simp add: ended_def st_e_def)
qed

lemma ended_second_gone:
  assumes "playing st a c"
  shows "ended (st\<lparr>disconnected := c # disconnected st\<rparr>) msg
         = st\<lparr>firstPlayerSocket := None, secondPlayerSocket := None, board := empty_board,
              trace := trace st @ [Emit a ''game_over'' (Str msg), Emit c ''game_over'' (Str msg),
                                   Disconnect a, Emit a ''game_over'' (Str first_left),
                                   Emit c ''game_over'' (Str first_left)],
              disconnected := a # c # disconnected st\<rparr>"
proof -
  define st_e where
    "st_e = emitToAll ''game_over'' (Str msg) (st\<lparr>disconnected := c # disconnected st\<rparr>)"
  from assms have f: "firstPlayerSocket st = Some a" and g: "secondPlayerSocket st = Some c"
    and ac: "a \<noteq> c" and oa: "a \<notin> set (disconnected st)" and ra: "registered a st = [''x'']"
    by (simp_all add: playing_def)
  have "cleanUp st_e
        = st_e\<lparr>firstPlayerSocket := None, secondPlayerSocket := None, board := empty_board,
              trace := trace st_e @ [Disconnect a, Emit a ''game_over'' (Str first_left),
                                     Emit c ''game_over'' (Str first_left)],
              disconnected := a # disconnected st_e\<rparr>"
    by (rule cleanUp_first_open_second_closed)
      (use f g ac oa ra in \<open>simp_all add: st_e_def emitToAll_eq\<close>)
  also have "\<dots> = st\<lparr>firstPlayerSocket := None, secondPlayerSocket := None, board := empty_board,
              trace := trace st @ [Emit a ''game_over'' (Str msg), Emit c ''game_over'' (Str msg),
                                   Disconnect a, Emit a ''game_over'' (Str first_left),
                                   Emit c ''game_over'' (Str first_left)],
              disconnected := a # c # disconnected st\<rparr>"
    using f g by (cases st) (simp add: st_e_def emitToAll_eq connected_def)
  finally show ?thesis by (simp add: ended_def st_e_def)
qed

lemma ended_console:
  assumes "playing st a c"
  shows "ended (act (ConsoleError e) st) msg
         = st\<lparr>firstPlayerSocket := None, secondPlayerSocket := None, board := empty_board,
              trace := trace st @ [ConsoleError e, Emit a ''game_over'' (Str msg),
                                   Emit c ''game_over'' (Str msg)] @ close_both a c,
              disconnected := c # a # disconnected st\<rparr>"
proof -
  have p: "playing (act (ConsoleError e) st) a c" using assms by (simp add: act_def)
  show ?thesis
    by (simp add: ended_playing [OF p]) (cases st, simp add: act_def)
qed

section \<open>The claims\<close>

text \<open>
  C3. The spec has terminal-condition detection add up, for each line, the scores
  \<open>+1\<close>, \<open>-1\<close> and, for an empty cell, \<open>0\<close>; so does the comment above
  \<^verbatim>\<open>determineWinnerFromSum\<close>. In the code an empty cell has no score: \<^verbatim>\<open>symbolToScore('.')\<close>
  is \<^verbatim>\<open>undefined\<close>, and the sum of every line with an empty cell is \<open>NaN\<close>. On the board
  after the moves 1, 5, 2 the first row should sum to 2, the second column and the first
  diagonal to 0; the code computes \<open>NaN\<close> for each.
\<close>

theorem empty_cell_has_no_score:
  "symbolToScore (Some ''.'') = None
   \<and> rowSum [''x'', ''x'', ''.'', ''.'', ''o'', ''.'', ''.'', ''.'', ''.''] 0 = NaN
   \<and> colSum [''x'', ''x'', ''.'', ''.'', ''o'', ''.'', ''.'', ''.'', ''.''] 1 = NaN
   \<and> diagonal1Sum [''x'', ''x'', ''.'', ''.'', ''o'', ''.'', ''.'', ''.'', ''.''] = NaN"
  by (simp add: symbolToScore_def rowSum_def colSum_def diagonal1Sum_def js_plus_def
      ToNumber_def at_index_def)

text \<open>
  C4. On every board on which one of the eight lines is filled by a player's mark,
  \<^verbatim>\<open>checkForGameOver\<close> reports the game over and calls \<^verbatim>\<open>announceWinner\<close> for the owner of
  the mark on the first filled line in the order rows, columns, diagonals (\<^verbatim>\<open>'x'\<close>, whose
  line sums to 3, is the first slot; \<^verbatim>\<open>'o'\<close>, whose line sums to \<open>-3\<close>, the second):
  the first thing this sends is \<^verbatim>\<open>game_over\<close> with "won by ... player", naming that
  owner, to each socket variable that is set; what follows are the calls of
  \<^verbatim>\<open>cleanUp\<close>. In a game in progress these are the two notifications to the two players,
  then the closing of both sockets with the notifications of their \<^verbatim>\<open>disconnect\<close>
  listeners. The player named is the owner of the mark of the given line whenever no line
  is filled by the other mark, and so on every board a game produces: a board got by
  writing a symbol into an empty cell of the board of a state the server has reached.
\<close>

theorem line_winner_declared:
  assumes "l \<in> set lines" and "filled (board st) m l" and "m = ''x'' \<or> m = ''o''"
  shows "\<exists>l0 who. find (complete (board st)) lines = Some l0
           \<and> who = (if filled (board st) ''x'' l0 then ''first'' else ''second'')
           \<and> checkForGameOver st = (True, announceWinner who st)
           \<and> (\<exists>rest. trace (announceWinner who st)
                  = trace st
                    @ map (\<lambda>t. Emit t ''game_over'' (Str (''won by '' @ who @ '' player'')))
                        (connected st)
                    @ rest
                \<and> list_all (closing_call (connected st)) rest)
           \<and> (\<forall>a c. playing st a c \<longrightarrow>
                 announceWinner who st
                 = st\<lparr>firstPlayerSocket := None, secondPlayerSocket := None, board := empty_board,
                      trace := trace st
                        @ [Emit a ''game_over'' (Str (''won by '' @ who @ '' player'')),
                           Emit c ''game_over'' (Str (''won by '' @ who @ '' player''))]
                        @ close_both a c,
                      disconnected := c # a # disconnected st\<rparr>)
           \<and> ((\<forall>l' \<in> set lines. \<not> filled (board st) (if m = ''x'' then ''o'' else ''x'') l')
                \<longrightarrow> who = (if m = ''x'' then ''first'' else ''second''))
           \<and> (\<forall>evs i symbol.
                 board (run evs initial_state) ! i = ''.''
                 \<and> board st = (board (run evs initial_state))[i := symbol]
                \<longrightarrow> who = (if m = ''x'' then ''first'' else ''second''))"
proof -
  from assms have "complete (board st) l" by (auto simp: complete_def)
  with assms(1) obtain l0 where l0: "find (complete (board st)) lines = Some l0"
    by (cases "find (complete (board st)) lines") (auto simp: find_None_iff)
  then have mem: "l0 \<in> set lines" and c0: "complete (board st) l0"
    by (auto simp: find_Some_iff)
  define who where "who = (if filled (board st) ''x'' l0 then ''first'' else ''second'')"
  have eq: "checkForGameOver st = (True, announceWinner who st)"
    by (simp add: checkForGameOver_scan scan_lines_find l0 who_def)
  have sent: "\<exists>rest. trace (announceWinner who st)
                  = trace st
                    @ map (\<lambda>t. Emit t ''game_over'' (Str (''won by '' @ who @ '' player'')))
                        (connected st)
                    @ rest
                \<and> list_all (closing_call (connected st)) rest"
    unfolding announceWinner_eq by (rule trace_ended)
  have exact: "announceWinner who st
                 = st\<lparr>firstPlayerSocket := None, secondPlayerSocket := None, board := empty_board,
                      trace := trace st
                        @ [Emit a ''game_over'' (Str (''won by '' @ who @ '' player'')),
                           Emit c ''game_over'' (Str (''won by '' @ who @ '' player''))]
                        @ close_both a c,
                      disconnected := c # a # disconnected st\<rparr>"
    if "playing st a c" for a c
    unfolding announceWinner_eq by (rule ended_playing [OF that])
  have one: "who = (if m = ''x'' then ''first'' else ''second'')"
    if "\<forall>l' \<in> set lines. \<not> filled (board st) (if m = ''x'' then ''o'' else ''x'') l'"
    using that mem c0 assms(3) by (auto simp: complete_def who_def)
  have play: "\<forall>l' \<in> set lines. \<not> filled (board st) (if m = ''x'' then ''o'' else ''x'') l'"
    if "board (run evs initial_state) ! i = ''.''"
      and "board st = (board (run evs initial_state))[i := symbol]" for evs i symbol
  proof
    fix l' assume l': "l' \<in> set lines"
    have "well_formed (run evs initial_state)"
      by (rule well_formed_run [OF well_formed_initial])
    then have inv: "\<forall>l \<in> set lines. \<not> complete (board (run evs initial_state)) l"
      by (simp add: well_formed_def)
    have s: "symbol = m"
      using line_of_the_mover [OF inv that(1) assms(1) _ assms(3)] assms(2) that(2) by simp
    show "\<not> filled (board st) (if m = ''x'' then ''o'' else ''x'') l'"
    proof
      assume f: "filled (board st) (if m = ''x'' then ''o'' else ''x'') l'"
      have "symbol = (if m = ''x'' then ''o'' else ''x'')"
        using line_of_the_mover [OF inv that(1) l', of symbol "if m = ''x'' then ''o'' else ''x''"]
          f that(2) by simp
      with s assms(3) show False by (auto split: if_splits)
    qed
  qed
  have two: "who = (if m = ''x'' then ''first'' else ''second'')"
    if "board (run evs initial_state) ! i = ''.''"
      and "board st = (board (run evs initial_state))[i := symbol]" for evs i symbol
    using one [OF play [OF that]] .
  from l0 eq sent exact one two who_def show ?thesis by blast
qed

theorem line_winner_declared_witness:
  "[2, 4, 6] \<in> set lines
   \<and> filled (board (game [''x'', ''x'', ''o'', ''x'', ''o'', ''.'', ''o'', ''.'', ''.''])) ''o'' [2, 4, 6]
   \<and> playing (game [''x'', ''x'', ''o'', ''x'', ''o'', ''.'', ''o'', ''.'', ''.'']) 1 2
   \<and> checkForGameOver (game [''x'', ''x'', ''o'', ''x'', ''o'', ''.'', ''o'', ''.'', ''.''])
       = (True,
          (game [''x'', ''x'', ''o'', ''x'', ''o'', ''.'', ''o'', ''.'', ''.''])
            \<lparr>firstPlayerSocket := None, secondPlayerSocket := None, board := empty_board,
             trace := [Emit 1 ''game_over'' (Str ''won by second player''),
                       Emit 2 ''game_over'' (Str ''won by second player''),
                       Disconnect 1,
                       Emit 1 ''game_over'' (Str ''won by second player since first player disconnected''),
                       Emit 2 ''game_over'' (Str ''won by second player since first player disconnected''),
                       Disconnect 2,
                       Emit 2 ''game_over'' (Str ''won by first player since second player disconnected'')],
             disconnected := [2, 1]\<rparr>)"
proof -
  let ?g = "game [''x'', ''x'', ''o'', ''x'', ''o'', ''.'', ''o'', ''.'', ''.'']"
  have mem: "[2, 4, 6] \<in> set lines" by (simp add: lines_def)
  have fil: "filled (board ?g) ''o'' [2, 4, 6]" by (simp add: filled_def game_def at_index_def)
  have p: "playing ?g 1 2" by (simp add: playing_def game_def registered_def)
  have nox: "\<forall>l' \<in> set lines. \<not> filled (board ?g) (if ''o'' = ''x'' then ''o'' else ''x'') l'"
    by (simp add: lines_def filled_def game_def at_index_def)
  from line_winner_declared [OF mem fil] obtain who where
    c: "checkForGameOver ?g = (True, announceWinner who ?g)"
    and e: "\<forall>a c. playing ?g a c \<longrightarrow>
                 announceWinner who ?g
                 = ?g\<lparr>firstPlayerSocket := None, secondPlayerSocket := None, board := empty_board,
                      trace := trace ?g
                        @ [Emit a ''game_over'' (Str (''won by '' @ who @ '' player'')),
                           Emit c ''game_over'' (Str (''won by '' @ who @ '' player''))]
                        @ close_both a c,
                      disconnected := c # a # disconnected ?g\<rparr>"
    and w: "(\<forall>l' \<in> set lines. \<not> filled (board ?g) (if ''o'' = ''x'' then ''o'' else ''x'') l')
            \<longrightarrow> who = (if ''o'' = ''x'' then ''first'' else ''second'')"
    by blast
  from w nox have "who = ''second''" by simp
  with c e p have "checkForGameOver ?g
       = (True, ?g\<lparr>firstPlayerSocket := None, secondPlayerSocket := None, board := empty_board,
                      trace := trace ?g
                        @ [Emit 1 ''game_over'' (Str (''won by '' @ ''second'' @ '' player'')),
                           Emit 2 ''game_over'' (Str (''won by '' @ ''second'' @ '' player''))]
                        @ close_both 1 2,
                      disconnected := 2 # 1 # disconnected ?g\<rparr>)"
    by simp
  then have "checkForGameOver ?g
       = (True, ?g\<lparr>firstPlayerSocket := None, secondPlayerSocket := None, board := empty_board,
             trace := [Emit 1 ''game_over'' (Str ''won by second player''),
                       Emit 2 ''game_over'' (Str ''won by second player''),
                       Disconnect 1,
                       Emit 1 ''game_over'' (Str ''won by second player since first player disconnected''),
                       Emit 2 ''game_over'' (Str ''won by second player since first player disconnected''),
                       Disconnect 2,
                       Emit 2 ''game_over'' (Str ''won by first player since second player disconnected'')],
             disconnected := [2, 1]\<rparr>)"
    by (simp add: game_def close_both_def first_left_def second_left_def)
  with mem fil p show ?thesis by blast
qed

text \<open>
  C5. When a move is accepted in a game in progress and the board it leaves has no filled
  line and no empty cell, \<^verbatim>\<open>checkForGameOver\<close> announces a tie: the listener broadcasts
  the full board, then \<^verbatim>\<open>game_over\<close> with "is tied" to both players, and cleans up,
  which closes both sockets, releases both slots and resets the board. Closing a socket
  runs its \<^verbatim>\<open>disconnect\<close> listener, so the trace goes on after the tie with the
  notifications of \<open>close_both\<close>; the first \<^verbatim>\<open>game_over\<close> either player is sent is the
  tie. This holds in every such state, so in the state any sequence of moves has led to:
  a sequence of accepted moves that fills the board without a filled line ends in this
  step.
\<close>

theorem full_board_without_line_is_tie:
  assumes "playing st a c"
    and "verdict_of (board st) raw = Accepted i"
    and "b' = (board st)[i := symbol]"
    and "\<forall>l \<in> set lines. \<not> complete b' l" and "''.'' \<notin> set b'"
  shows "checkForGameOver (st\<lparr>board := b'\<rparr>) = (True, announceTie (st\<lparr>board := b'\<rparr>))
         \<and> on_turn_taken s symbol raw next st
           = call_next next s
               (st\<lparr>firstPlayerSocket := None, secondPlayerSocket := None, board := empty_board,
                   trace := trace st
                     @ [Emit a ''board_update'' (Board b'), Emit c ''board_update'' (Board b'),
                        Emit a ''game_over'' (Str ''is tied''), Emit c ''game_over'' (Str ''is tied'')]
                     @ close_both a c,
                   disconnected := c # a # disconnected st\<rparr>)
         \<and> first_game_over a (drop (length (trace st)) (trace (on_turn_taken s symbol raw next st)))
           = Some (Str ''is tied'')
         \<and> first_game_over c (drop (length (trace st)) (trace (on_turn_taken s symbol raw next st)))
           = Some (Str ''is tied'')"
proof -
  have o: "outcome b' = Some ''is tied''" using assms(4,5) by (rule outcome_tie)
  have c: "connected st = [a, c]" using assms(1) by (rule playing_connected)
  have nc: "\<not> crashed st" and ac: "a \<noteq> c" using assms(1) by (simp_all add: playing_def)
  define st2 where "st2 = st\<lparr>board := b',
      trace := trace st @ [Emit a ''board_update'' (Board b'), Emit c ''board_update'' (Board b')]\<rparr>"
  have p2: "playing st2 a c" using assms(1) by (simp add: st2_def)
  have first: "checkForGameOver (st\<lparr>board := b'\<rparr>) = (True, announceTie (st\<lparr>board := b'\<rparr>))"
    by (simp add: checkForGameOver_outcome o announceTie_eq)
  have "on_turn_taken s symbol raw next st = call_next next s (ended st2 ''is tied'')"
    using o c assms(3) by (simp add: on_turn_taken_accepted [OF nc assms(2)] Let_def st2_def)
  also have "ended st2 ''is tied''
             = st\<lparr>firstPlayerSocket := None, secondPlayerSocket := None, board := empty_board,
                   trace := trace st
                     @ [Emit a ''board_update'' (Board b'), Emit c ''board_update'' (Board b'),
                        Emit a ''game_over'' (Str ''is tied''), Emit c ''game_over'' (Str ''is tied'')]
                     @ close_both a c,
                   disconnected := c # a # disconnected st\<rparr>"
    by (simp add: ended_playing [OF p2]) (simp add: st2_def)
  finally have second: "on_turn_taken s symbol raw next st
           = call_next next s
               (st\<lparr>firstPlayerSocket := None, secondPlayerSocket := None, board := empty_board,
                   trace := trace st
                     @ [Emit a ''board_update'' (Board b'), Emit c ''board_update'' (Board b'),
                        Emit a ''game_over'' (Str ''is tied''), Emit c ''game_over'' (Str ''is tied'')]
                     @ close_both a c,
                   disconnected := c # a # disconnected st\<rparr>)" .
  have third: "first_game_over a (drop (length (trace st)) (trace (on_turn_taken s symbol raw next st)))
           = Some (Str ''is tied'')"
    "first_game_over c (drop (length (trace st)) (trace (on_turn_taken s symbol raw next st)))
           = Some (Str ''is tied'')"
    using ac by (simp_all add: second trace_call_next)
  from first second third show ?thesis by blast
qed

theorem full_board_without_line_is_tie_witness:
  "playing (game [''x'', ''o'', ''x'', ''x'', ''o'', ''o'', ''o'', ''x'', ''.'']) 1 2
   \<and> on_turn_taken 1 ''x'' (JStr ''9'') True
     (game [''x'', ''o'', ''x'', ''x'', ''o'', ''o'', ''o'', ''x'', ''.''])
   = (game [''x'', ''o'', ''x'', ''x'', ''o'', ''o'', ''o'', ''x'', ''.''])
       \<lparr>firstPlayerSocket := None, secondPlayerSocket := None, board := empty_board,
        trace := [Emit 1 ''board_update'' (Board [''x'', ''o'', ''x'', ''x'', ''o'', ''o'', ''o'', ''x'', ''x'']),
                  Emit 2 ''board_update'' (Board [''x'', ''o'', ''x'', ''x'', ''o'', ''o'', ''o'', ''x'', ''x'']),
                  Emit 1 ''game_over'' (Str ''is tied''), Emit 2 ''game_over'' (Str ''is tied''),
                  Disconnect 1,
                  Emit 1 ''game_over'' (Str ''won by second player since first player disconnected''),
                  Emit 2 ''game_over'' (Str ''won by second player since first player disconnected''),
                  Disconnect 2,
                  Emit 2 ''game_over'' (Str ''won by first player since second player disconnected''),
                  Ack 1],
        disconnected := [2, 1]\<rparr>"
  using full_board_without_line_is_tie [of
      "game [''x'', ''o'', ''x'', ''x'', ''o'', ''o'', ''o'', ''x'', ''.'']" 1 2 "JStr ''9''" 8
      "[''x'', ''o'', ''x'', ''x'', ''o'', ''o'', ''o'', ''x'', ''x'']" "''x''" 1 True]
  by (simp add: game_def verdict_examples lines_def complete_def filled_def at_index_def
      call_next_def act_def playing_def registered_def close_both_def first_left_def
      second_left_def)

text \<open>
  C6. The spec has a rejected move leave the turn token unchanged and never end or
  otherwise affect the session. In the code the rejection is a \<^verbatim>\<open>turn\<close> event with the
  reason to the submitting socket, whoever held the turn, followed by the call of the
  acknowledgement callback \<^verbatim>\<open>next()\<close>, whether one was sent or not. After the two
  connections the turn is with socket 1: an out-of-bounds move of socket 2 hands the
  turn to socket 2. A move sent without the callback, as the client that prompts once per
  \<^verbatim>\<open>turn\<close> event sends it, makes \<^verbatim>\<open>next()\<close> throw: the process ends, and no event after
  that does anything.
\<close>

theorem rejected_move_can_pass_the_turn_or_crash:
  "turn_token (run [Connection 1, Connection 2] initial_state) = Some 1
   \<and> rejected (verdict_of (board (run [Connection 1, Connection 2] initial_state)) (JStr ''10''))
   \<and> turn_token (step (TurnTaken 2 (JStr ''10'') True) (run [Connection 1, Connection 2] initial_state))
     = Some 2
   \<and> rejected (verdict_of (board (run [Connection 1, Connection 2] initial_state)) (JStr ''abc''))
   \<and> trace (step (TurnTaken 1 (JStr ''abc'') False) (run [Connection 1, Connection 2] initial_state))
     = trace (run [Connection 1, Connection 2] initial_state)
       @ [Emit 1 ''turn'' (Str ''couldn't parse position. enter a number from 1-9.''),
          Throw ''TypeError'']
   \<and> crashed (step (TurnTaken 1 (JStr ''abc'') False) (run [Connection 1, Connection 2] initial_state))
   \<and> run [TurnTaken 1 (JStr ''abc'') False, TurnTaken 1 (JStr ''5'') True]
        (run [Connection 1, Connection 2] initial_state)
     = step (TurnTaken 1 (JStr ''abc'') False) (run [Connection 1, Connection 2] initial_state)"
proof -
  let ?g = "\<lparr>firstPlayerSocket = Some 1, secondPlayerSocket = Some 2, board = empty_board,
      listeners = [(1, ''x''), (2, ''o'')],
      trace = [Emit 1 ''game_start'' (Str ''first''), Emit 2 ''game_start'' (Str ''second''),
               Emit 1 ''turn'' Null],
      crashed = False, disconnected = []\<rparr>"
  have c: "\<not> crashed ?g" by simp
  have r2: "on_turn_taken 2 ''o'' (JStr ''10'') True ?g
           = ?g\<lparr>trace := trace ?g
       @ [Emit 2 ''turn'' (Str ''that position is out of bounds. enter a number from 1-9.''), Ack 2]\<rparr>"
    using on_turn_taken_rejected [OF c, of "JStr ''10''" 2 "''o''" True]
    by (simp add: verdict_examples call_next_def act_def)
  have r1: "on_turn_taken 1 ''x'' (JStr ''abc'') False ?g
           = ?g\<lparr>trace := trace ?g
       @ [Emit 1 ''turn'' (Str ''couldn't parse position. enter a number from 1-9.''),
          Throw ''TypeError''], crashed := True\<rparr>"
    using on_turn_taken_rejected [OF c, of "JStr ''abc''" 1 "''x''" False]
    by (simp add: verdict_examples call_next_def act_def throw_def)
  show ?thesis
    unfolding start
    by (simp add: run_def step_def registered_def r1 r2 verdict_examples Let_def del: One_nat_def)
      (simp add: turn_token_def)
qed

text \<open>
  C6, amended. A move the \<^verbatim>\<open>turn_taken\<close> listener rejects (the position does not convert
  to a number, is out of bounds, or names no empty cell), sent with its acknowledgement
  callback, changes neither the board nor the two slots nor the listeners nor the
  sockets connected; the only notification is a \<^verbatim>\<open>turn\<close> event with the reason, sent to
  the submitting socket alone, which has the turn afterwards whoever had it before; then
  the listener acknowledges, and the session goes on.
\<close>

theorem rejected_move_prompts_submitter:
  assumes "\<not> crashed st" and "rejected (verdict_of (board st) raw)"
    and "st' = on_turn_taken s symbol raw True st"
  shows "board st' = board st
         \<and> firstPlayerSocket st' = firstPlayerSocket st
         \<and> secondPlayerSocket st' = secondPlayerSocket st
         \<and> listeners st' = listeners st
         \<and> disconnected st' = disconnected st
         \<and> trace st' = trace st
              @ [Emit s ''turn'' (Str (rejection_reason (verdict_of (board st) raw))), Ack s]
         \<and> \<not> crashed st'
         \<and> turn_token st' = Some s"
proof -
  have eq: "st' = call_next True s
      (st\<lparr>trace := trace st @ [Emit s ''turn'' (Str (rejection_reason (verdict_of (board st) raw)))]\<rparr>)"
    using assms by (simp add: on_turn_taken_rejected)
  have tr: "trace st' = trace st
              @ [Emit s ''turn'' (Str (rejection_reason (verdict_of (board st) raw)))]
              @ [Ack s]"
    by (simp add: eq call_next_def act_def)
  have tok: "turn_token st' = Some s"
    by (simp add: turn_token_def tr)
  show ?thesis using assms(1) tok tr
    by (simp add: eq call_next_def act_def)
qed

theorem rejected_move_prompts_submitter_witness:
  "\<not> crashed (game empty_board)
   \<and> rejected (verdict_of (board (game empty_board)) (JStr ''abc''))
   \<and> rejected (verdict_of (board (game empty_board)) (JStr ''10''))
   \<and> board (on_turn_taken 1 ''x'' (JStr ''abc'') True (game empty_board)) = empty_board
   \<and> trace (on_turn_taken 2 ''o'' (JStr ''10'') True (game empty_board))
       = [Emit 2 ''turn'' (Str ''that position is out of bounds. enter a number from 1-9.''), Ack 2]
   \<and> \<not> crashed (on_turn_taken 2 ''o'' (JStr ''10'') True (game empty_board))
   \<and> turn_token (on_turn_taken 2 ''o'' (JStr ''10'') True (game empty_board)) = Some 2"
  using rejected_move_prompts_submitter [of "game empty_board" "JStr ''abc''" _ 1 "''x''", OF _ _ refl]
    rejected_move_prompts_submitter [of "game empty_board" "JStr ''10''" _ 2 "''o''", OF _ _ refl]
  by (simp add: game_def verdict_examples)

text \<open>
  C8. In a game in progress, a \<^verbatim>\<open>disconnect\<close>, \<^verbatim>\<open>resign\<close> or \<^verbatim>\<open>turn_error\<close> event of a
  player's socket ends the session at once: \<^verbatim>\<open>game_over\<close> goes to both players naming
  the other slot as the winner, and \<^verbatim>\<open>cleanUp\<close> closes the sockets still connected,
  releases both slots and resets the board. Nothing in it looks at who holds the turn.
  Closing a socket runs its \<^verbatim>\<open>disconnect\<close> listener while its variable is still set, so
  the server goes on to send the notifications of that listener: the first \<^verbatim>\<open>game_over\<close>
  either player is sent names the other slot, and the ones after it say that a player
  disconnected.
\<close>

theorem leaving_slot_loses:
  assumes "playing st a c"
    and "s = a \<and> symbol = ''x'' \<and> winner = ''second'' \<and> loser = ''first''
         \<or> s = c \<and> symbol = ''o'' \<and> winner = ''first'' \<and> loser = ''second''"
    and "left = ''won by '' @ winner @ '' player since '' @ loser @ '' player disconnected''"
    and "resigned = ''won by '' @ winner @ '' player due to resignation''"
  shows "step (Disconnection s) st
           = st\<lparr>firstPlayerSocket := None, secondPlayerSocket := None, board := empty_board,
                trace := trace st
                  @ [Emit a ''game_over'' (Str left), Emit c ''game_over'' (Str left)]
                  @ (if s = a
                     then [Disconnect c, Emit c ''game_over'' (Str second_left)]
                     else [Disconnect a, Emit a ''game_over'' (Str first_left),
                           Emit c ''game_over'' (Str first_left)]),
                disconnected := (if s = a then [c, a] else [a, c]) @ disconnected st\<rparr>
         \<and> step (Resign s) st
           = st\<lparr>firstPlayerSocket := None, secondPlayerSocket := None, board := empty_board,
                trace := trace st
                  @ [Emit a ''game_over'' (Str resigned), Emit c ''game_over'' (Str resigned)]
                  @ close_both a c,
                disconnected := c # a # disconnected st\<rparr>
         \<and> step (TurnError s err) st
           = st\<lparr>firstPlayerSocket := None, secondPlayerSocket := None, board := empty_board,
                trace := trace st
                  @ [ConsoleError (loser @ '' player had an error with input ('' @ err
                       @ ''). assuming disconnection.''),
                     Emit a ''game_over'' (Str left), Emit c ''game_over'' (Str left)]
                  @ close_both a c,
                disconnected := c # a # disconnected st\<rparr>
         \<and> (\<forall>ev \<in> {Disconnection s, Resign s, TurnError s err}.
               first_game_over a (drop (length (trace st)) (trace (step ev st)))
                 = Some (Str (if ev = Resign s then resigned else left))
               \<and> first_game_over c (drop (length (trace st)) (trace (step ev st)))
                 = Some (Str (if ev = Resign s then resigned else left)))"
proof -
  from assms(1) have nc: "\<not> crashed st" and ac: "a \<noteq> c"
    and oa: "a \<notin> set (disconnected st)" and oc: "c \<notin> set (disconnected st)"
    and ra: "registered a st = [''x'']" and rc: "registered c st = [''o'']"
    by (simp_all add: playing_def)
  from assms(2) have rs: "registered s st = [symbol]" and os: "s \<notin> set (disconnected st)"
    using ra rc oa oc by auto
  have w: "otherPlayerOrdinal symbol = winner"
    and l: "(if winner = ''first'' then ''second'' else ''first'') = loser"
    and l': "(if symbol = ''x'' then ''first'' else ''second'') = loser"
    using assms(2) by (auto simp: otherPlayerOrdinal_def)
  have d: "step (Disconnection s) st = ended (st\<lparr>disconnected := s # disconnected st\<rparr>) left"
    using nc os rs
    by (simp add: step_def on_disconnect_def announceWinnerByDisconnection_eq w l assms(3))
  have r: "step (Resign s) st = ended st resigned"
    using nc os rs
    by (simp add: step_def on_resign_def announceWinnerByResignation_eq w assms(4))
  have e: "step (TurnError s err) st
           = ended (act (ConsoleError (loser @ '' player had an error with input ('' @ err
                       @ ''). assuming disconnection.'')) st) left"
    using nc os rs
    by (simp add: step_def on_turn_error_def announceWinnerByDisconnection_eq w l l' assms(3)
        Let_def)
  have d': "step (Disconnection s) st
           = st\<lparr>firstPlayerSocket := None, secondPlayerSocket := None, board := empty_board,
                trace := trace st
                  @ [Emit a ''game_over'' (Str left), Emit c ''game_over'' (Str left)]
                  @ (if s = a
                     then [Disconnect c, Emit c ''game_over'' (Str second_left)]
                     else [Disconnect a, Emit a ''game_over'' (Str first_left),
                           Emit c ''game_over'' (Str first_left)]),
                disconnected := (if s = a then [c, a] else [a, c]) @ disconnected st\<rparr>"
  proof (cases "s = a")
    case True
    then show ?thesis unfolding d by (simp add: ended_first_gone [OF assms(1)])
  next
    case False
    then have "s = c" using assms(2) by auto
    then show ?thesis using ac unfolding d by (simp add: ended_second_gone [OF assms(1)])
  qed
  have r': "step (Resign s) st
           = st\<lparr>firstPlayerSocket := None, secondPlayerSocket := None, board := empty_board,
                trace := trace st
                  @ [Emit a ''game_over'' (Str resigned), Emit c ''game_over'' (Str resigned)]
                  @ close_both a c,
                disconnected := c # a # disconnected st\<rparr>"
    by (simp add: r ended_playing [OF assms(1)])
  have e': "step (TurnError s err) st
           = st\<lparr>firstPlayerSocket := None, secondPlayerSocket := None, board := empty_board,
                trace := trace st
                  @ [ConsoleError (loser @ '' player had an error with input ('' @ err
                       @ ''). assuming disconnection.''),
                     Emit a ''game_over'' (Str left), Emit c ''game_over'' (Str left)]
                  @ close_both a c,
                disconnected := c # a # disconnected st\<rparr>"
    by (simp add: e ended_console [OF assms(1)])
  have f: "first_game_over a (drop (length (trace st)) (trace (step ev st)))
                 = Some (Str (if ev = Resign s then resigned else left))
               \<and> first_game_over c (drop (length (trace st)) (trace (step ev st)))
                 = Some (Str (if ev = Resign s then resigned else left))"
    if "ev \<in> {Disconnection s, Resign s, TurnError s err}" for ev
    using that ac by (auto simp: d' r' e')
  from d' r' e' f show ?thesis by blast
qed

theorem leaving_slot_loses_witness:
  "playing (run [Connection 1, Connection 2] initial_state) 1 2
   \<and> turn_token (run [Connection 1, Connection 2] initial_state) = Some 1
   \<and> step (Resign 1) (run [Connection 1, Connection 2] initial_state)
     = (run [Connection 1, Connection 2] initial_state)
         \<lparr>firstPlayerSocket := None, secondPlayerSocket := None, board := empty_board,
          trace := trace (run [Connection 1, Connection 2] initial_state)
            @ [Emit 1 ''game_over'' (Str ''won by second player due to resignation''),
               Emit 2 ''game_over'' (Str ''won by second player due to resignation''),
               Disconnect 1,
               Emit 1 ''game_over'' (Str ''won by second player since first player disconnected''),
               Emit 2 ''game_over'' (Str ''won by second player since first player disconnected''),
               Disconnect 2,
               Emit 2 ''game_over'' (Str ''won by first player since second player disconnected'')],
          disconnected := [2, 1]\<rparr>
   \<and> trace (step (Disconnection 2) (run [Connection 1, Connection 2] initial_state))
     = trace (run [Connection 1, Connection 2] initial_state)
       @ [Emit 1 ''game_over'' (Str ''won by first player since second player disconnected''),
          Emit 2 ''game_over'' (Str ''won by first player since second player disconnected''),
          Disconnect 1,
          Emit 1 ''game_over'' (Str ''won by second player since first player disconnected''),
          Emit 2 ''game_over'' (Str ''won by second player since first player disconnected'')]"
proof -
  have p: "playing (run [Connection 1, Connection 2] initial_state) 1 2"
    unfolding start by (simp add: playing_def registered_def)
  have t: "turn_token (run [Connection 1, Connection 2] initial_state) = Some 1"
    unfolding start by (simp add: turn_token_def)
  note a = leaving_slot_loses [OF p, of 1 "''x''" "''second''" "''first''" _ _ "[]", OF _ refl refl]
  note b = leaving_slot_loses [OF p, of 2 "''o''" "''first''" "''second''" _ _ "[]", OF _ refl refl]
  from a have "step (Resign 1) (run [Connection 1, Connection 2] initial_state)
     = (run [Connection 1, Connection 2] initial_state)
         \<lparr>firstPlayerSocket := None, secondPlayerSocket := None, board := empty_board,
          trace := trace (run [Connection 1, Connection 2] initial_state)
            @ [Emit 1 ''game_over'' (Str ''won by second player due to resignation''),
               Emit 2 ''game_over'' (Str ''won by second player due to resignation'')]
            @ close_both 1 2,
          disconnected := 2 # 1 # disconnected (run [Connection 1, Connection 2] initial_state)\<rparr>"
    by simp
  moreover from b have "step (Disconnection 2) (run [Connection 1, Connection 2] initial_state)
     = (run [Connection 1, Connection 2] initial_state)
         \<lparr>firstPlayerSocket := None, secondPlayerSocket := None, board := empty_board,
          trace := trace (run [Connection 1, Connection 2] initial_state)
            @ [Emit 1 ''game_over'' (Str ''won by first player since second player disconnected''),
               Emit 2 ''game_over'' (Str ''won by first player since second player disconnected'')]
            @ [Disconnect 1, Emit 1 ''game_over'' (Str first_left),
               Emit 2 ''game_over'' (Str first_left)],
          disconnected := [1, 2] @ disconnected (run [Connection 1, Connection 2] initial_state)\<rparr>"
    by simp
  moreover have "disconnected (run [Connection 1, Connection 2] initial_state) = []"
    unfolding start by simp
  ultimately show ?thesis using p t
    by (simp add: close_both_def first_left_def second_left_def)
qed

text \<open>
  C10. When an accepted move ends a game in progress, by a win or a tie, the
  \<^verbatim>\<open>turn_taken\<close> listener first sends \<^verbatim>\<open>board_update\<close> with the final board to both
  players and only then \<^verbatim>\<open>game_over\<close>; after that come the calls of \<^verbatim>\<open>cleanUp\<close>, with
  the \<^verbatim>\<open>game_over\<close> notifications of the \<^verbatim>\<open>disconnect\<close> listeners it runs, and the
  acknowledgement. Whatever the state and the position, every \<^verbatim>\<open>game_over\<close> the listener
  sends to a socket, those of the \<^verbatim>\<open>disconnect\<close> listeners too, comes after the
  \<^verbatim>\<open>board_update\<close> with the board of that move sent to the same socket; a rejected move
  sends no \<^verbatim>\<open>game_over\<close>.
\<close>

theorem board_update_before_game_over:
  assumes "\<not> crashed st"
  shows "(playing st a c
            \<and> verdict_of (board st) raw = Accepted i \<and> outcome ((board st)[i := symbol]) = Some msg
          \<longrightarrow> trace (on_turn_taken s symbol raw next st)
                = trace st
                  @ [Emit a ''board_update'' (Board ((board st)[i := symbol])),
                     Emit c ''board_update'' (Board ((board st)[i := symbol])),
                     Emit a ''game_over'' (Str msg), Emit c ''game_over'' (Str msg)]
                  @ close_both a c
                  @ [if next then Ack s else Throw ''TypeError''])
         \<and> (\<exists>new. trace (on_turn_taken s symbol raw next st) = trace st @ new
                \<and> (\<forall>j. verdict_of (board st) raw = Accepted j
                       \<longrightarrow> board_first ((board st)[j := symbol]) [] new)
                \<and> (rejected (verdict_of (board st) raw)
                       \<longrightarrow> (\<forall>t m. Emit t ''game_over'' m \<notin> set new)))"
proof -
  have first: "trace (on_turn_taken s symbol raw next st)
                = trace st
                  @ [Emit a ''board_update'' (Board ((board st)[i := symbol])),
                     Emit c ''board_update'' (Board ((board st)[i := symbol])),
                     Emit a ''game_over'' (Str msg), Emit c ''game_over'' (Str msg)]
                  @ close_both a c
                  @ [if next then Ack s else Throw ''TypeError'']"
    if p: "playing st a c"
      and v: "verdict_of (board st) raw = Accepted i"
      and o: "outcome ((board st)[i := symbol]) = Some msg"
  proof -
    define st2 where "st2 = st\<lparr>board := (board st)[i := symbol],
        trace := trace st @ [Emit a ''board_update'' (Board ((board st)[i := symbol])),
                             Emit c ''board_update'' (Board ((board st)[i := symbol]))]\<rparr>"
    have p2: "playing st2 a c" using p by (simp add: st2_def)
    have "on_turn_taken s symbol raw next st = call_next next s (ended st2 msg)"
      using o playing_connected [OF p]
      by (simp add: on_turn_taken_accepted [OF assms v] Let_def st2_def)
    then show ?thesis
      by (simp add: trace_call_next ended_playing [OF p2]) (simp add: st2_def)
  qed
  have second: "\<exists>new. trace (on_turn_taken s symbol raw next st) = trace st @ new
                \<and> (\<forall>j. verdict_of (board st) raw = Accepted j
                       \<longrightarrow> board_first ((board st)[j := symbol]) [] new)
                \<and> (rejected (verdict_of (board st) raw)
                       \<longrightarrow> (\<forall>t m. Emit t ''game_over'' m \<notin> set new))"
  proof (cases "verdict_of (board st) raw")
    case (Accepted j)
    show ?thesis
    proof (cases "outcome ((board st)[j := symbol])")
      case None
      from new_trace_on [OF assms Accepted None, of s "next"] obtain rest where
        r: "trace (on_turn_taken s symbol raw next st)
             = trace st @ (map (\<lambda>t. Emit t ''board_update'' (Board ((board st)[j := symbol]))) (connected st) @ rest)"
        and b: "board_first ((board st)[j := symbol]) (rev (connected st)) rest"
        by blast
      show ?thesis
        by (rule exI, intro conjI, rule r) (simp_all add: Accepted board_first_updates b)
    next
      case (Some m)
      from new_trace_over [OF assms Accepted Some, of s "next"] obtain rest where
        r: "trace (on_turn_taken s symbol raw next st)
             = trace st
               @ (map (\<lambda>t. Emit t ''board_update'' (Board ((board st)[j := symbol]))) (connected st)
                  @ map (\<lambda>t. Emit t ''game_over'' (Str m)) (connected st)
                  @ rest
                  @ [if next then Ack s else Throw ''TypeError''])"
        and k: "list_all (closing_call (connected st)) rest"
        by blast
      have bf: "board_first ((board st)[j := symbol]) (rev (connected st))
              (rest @ [if next then Ack s else Throw ''TypeError''])"
        using board_first_closing [OF k, of "rev (connected st)"] by simp
      show ?thesis
        by (rule exI, intro conjI, rule r)
          (simp_all add: Accepted board_first_updates board_first_overs bf)
    qed
  next
    case Unparseable
    then show ?thesis using assms by (simp add: on_turn_taken_rejected trace_call_next)
  next
    case OutOfBounds
    then show ?thesis using assms by (simp add: on_turn_taken_rejected trace_call_next)
  next
    case Occupied
    then show ?thesis using assms by (simp add: on_turn_taken_rejected trace_call_next)
  qed
  from first second show ?thesis by blast
qed

theorem board_update_before_game_over_witness:
  "\<not> crashed (game [''x'', ''x'', ''.'', ''o'', ''o'', ''.'', ''.'', ''.'', ''.''])
   \<and> playing (game [''x'', ''x'', ''.'', ''o'', ''o'', ''.'', ''.'', ''.'', ''.'']) 1 2
   \<and> trace (on_turn_taken 1 ''x'' (JStr ''3'') True
            (game [''x'', ''x'', ''.'', ''o'', ''o'', ''.'', ''.'', ''.'', ''.'']))
   = [Emit 1 ''board_update'' (Board [''x'', ''x'', ''x'', ''o'', ''o'', ''.'', ''.'', ''.'', ''.'']),
      Emit 2 ''board_update'' (Board [''x'', ''x'', ''x'', ''o'', ''o'', ''.'', ''.'', ''.'', ''.'']),
      Emit 1 ''game_over'' (Str ''won by first player''),
      Emit 2 ''game_over'' (Str ''won by first player''),
      Disconnect 1,
      Emit 1 ''game_over'' (Str ''won by second player since first player disconnected''),
      Emit 2 ''game_over'' (Str ''won by second player since first player disconnected''),
      Disconnect 2,
      Emit 2 ''game_over'' (Str ''won by first player since second player disconnected''),
      Ack 1]"
proof -
  let ?g = "game [''x'', ''x'', ''.'', ''o'', ''o'', ''.'', ''.'', ''.'', ''.'']"
  have v: "verdict_of [''x'', ''x'', ''.'', ''o'', ''o'', ''.'', ''.'', ''.'', ''.''] (JStr ''3'') = Accepted 2"
    by code_simp
  have o: "outcome [''x'', ''x'', ''x'', ''o'', ''o'', ''.'', ''.'', ''.'', ''.''] = Some ''won by first player''"
    by (simp add: outcome_def lines_def complete_def filled_def at_index_def)
  have c: "\<not> crashed ?g" by (simp add: game_def)
  have p: "playing ?g 1 2" by (simp add: playing_def game_def registered_def)
  have b: "board ?g = [''x'', ''x'', ''.'', ''o'', ''o'', ''.'', ''.'', ''.'', ''.'']"
    by (simp add: game_def)
  from board_update_before_game_over [OF c, of 1 2 "JStr ''3''" 2 "''x''" "''won by first player''" 1 True]
  have "playing ?g 1 2
      \<and> verdict_of (board ?g) (JStr ''3'') = Accepted 2
      \<and> outcome ((board ?g)[2 := ''x'']) = Some ''won by first player''
      \<longrightarrow> trace (on_turn_taken 1 ''x'' (JStr ''3'') True ?g)
          = trace ?g
            @ [Emit 1 ''board_update'' (Board ((board ?g)[2 := ''x''])),
               Emit 2 ''board_update'' (Board ((board ?g)[2 := ''x''])),
               Emit 1 ''game_over'' (Str ''won by first player''),
               Emit 2 ''game_over'' (Str ''won by first player'')]
            @ close_both 1 2
            @ [if True then Ack 1 else Throw ''TypeError'']"
    by (rule conjunct1)
  with p have "trace (on_turn_taken 1 ''x'' (JStr ''3'') True ?g)
          = trace ?g
            @ [Emit 1 ''board_update'' (Board ((board ?g)[2 := ''x''])),
               Emit 2 ''board_update'' (Board ((board ?g)[2 := ''x''])),
               Emit 1 ''game_over'' (Str ''won by first player''),
               Emit 2 ''game_over'' (Str ''won by first player'')]
            @ close_both 1 2
            @ [if True then Ack 1 else Throw ''TypeError'']"
    by (simp add: b v o)
  then have "trace (on_turn_taken 1 ''x'' (JStr ''3'') True ?g)
   = [Emit 1 ''board_update'' (Board [''x'', ''x'', ''x'', ''o'', ''o'', ''.'', ''.'', ''.'', ''.'']),
      Emit 2 ''board_update'' (Board [''x'', ''x'', ''x'', ''o'', ''o'', ''.'', ''.'', ''.'', ''.'']),
      Emit 1 ''game_over'' (Str ''won by first player''),
      Emit 2 ''game_over'' (Str ''won by first player''),
      Disconnect 1,
      Emit 1 ''game_over'' (Str ''won by second player since first player disconnected''),
      Emit 2 ''game_over'' (Str ''won by second player since first player disconnected''),
      Disconnect 2,
      Emit 2 ''game_over'' (Str ''won by first player since second player disconnected''),
      Ack 1]"
    by (simp add: game_def close_both_def first_left_def second_left_def)
  with c p show ?thesis by blast
qed



text \<open>
  C7. The spec has move validation reject as unparseable every input that does not parse
  as an integer, and as occupied exactly the moves whose target cell is not empty. The
  code converts with \<^verbatim>\<open>Number\<close>, which accepts more than integers. On the empty board the
  text "1.5" is rejected as occupied (position \<open>0.5\<close> passes the bounds check and names
  no cell), and the empty text, which \<^verbatim>\<open>Number\<close> converts to 0, as out of bounds.
\<close>

theorem fraction_and_empty_text_not_unparseable:
  "set (board (game empty_board)) = {''.''}
   \<and> trace (on_turn_taken 1 ''x'' (JStr ''1.5'') True (game empty_board))
     = [Emit 1 ''turn'' (Str ''that position is occupied. try again.''), Ack 1]
   \<and> trace (on_turn_taken 1 ''x'' (JStr []) True (game empty_board))
     = [Emit 1 ''turn'' (Str ''that position is out of bounds. enter a number from 1-9.''), Ack 1]"
proof -
  have c: "\<not> crashed (game empty_board)" by (simp add: game_def)
  have b: "board (game empty_board) = empty_board" by (simp add: game_def)
  show ?thesis
    using on_turn_taken_rejected [OF c, of "JStr ''1.5''" 1 "''x''" True]
      on_turn_taken_rejected [OF c, of "JStr []" 1 "''x''" True]
    by (simp add: b verdict_examples trace_call_next well_formed_empty) (simp add: game_def)
qed

text \<open>
  C7, amended. The checks of the \<^verbatim>\<open>turn_taken\<close> listener, in order: an input that
  \<^verbatim>\<open>Number\<close> converts to \<open>NaN\<close> is rejected as unparseable; otherwise 1 is subtracted and
  the move is rejected as out of bounds exactly when the result is below 0 or not below
  the length of the board; otherwise, when the result is a whole number \<open>i\<close>, it is an
  index of the board, the move is rejected as occupied exactly when cell \<open>i\<close> is not
  empty, and else the slot's symbol is written to cell \<open>i\<close> and that board is broadcast
  (after which the board is reset if the move ended the game).
\<close>

theorem move_validation_order:
  assumes "\<not> crashed st" and "position = js_sub (Number_js raw) (Num 1)"
    and "st' = on_turn_taken s symbol raw next st"
  shows "(Number_js raw = NaN \<longrightarrow>
            st' = call_next next s
              (act (Emit s ''turn'' (Str ''couldn't parse position. enter a number from 1-9.'')) st))
       \<and> (Number_js raw \<noteq> NaN
            \<and> (js_lt position (Num 0) \<or> js_ge position (Num (of_nat (length (board st))))) \<longrightarrow>
            st' = call_next next s
              (act (Emit s ''turn''
                     (Str ''that position is out of bounds. enter a number from 1-9.'')) st))
       \<and> (Number_js raw \<noteq> NaN
            \<and> \<not> js_lt position (Num 0) \<and> \<not> js_ge position (Num (of_nat (length (board st))))
            \<and> position = Num (of_nat i) \<longrightarrow>
            i < length (board st)
            \<and> (board st ! i \<noteq> ''.'' \<longrightarrow>
                 st' = call_next next s
                   (act (Emit s ''turn'' (Str ''that position is occupied. try again.'')) st))
            \<and> (board st ! i = ''.'' \<longrightarrow>
                 (\<exists>rest. trace st' = trace st
                    @ map (\<lambda>t. Emit t ''board_update'' (Board ((board st)[i := symbol]))) (connected st)
                    @ rest)
                 \<and> (board st' = (board st)[i := symbol] \<or> board st' = empty_board)))"
proof -
  have v: "verdict_of (board st) raw = verdict_at (board st) position"
    by (simp add: verdict_of_def assms(2))
  have nan: "isNaN position = (Number_js raw = NaN)"
    by (simp add: isNaN_def assms(2) js_sub_NaN)
  have p1: "st' = call_next next s
              (act (Emit s ''turn'' (Str ''couldn't parse position. enter a number from 1-9.'')) st)"
    if "Number_js raw = NaN"
  proof -
    have "verdict_of (board st) raw = Unparseable" using that nan by (simp add: v verdict_at_def)
    then show ?thesis using assms(1,3) by (simp add: on_turn_taken_rejected act_def)
  qed
  have p2: "st' = call_next next s
              (act (Emit s ''turn''
                     (Str ''that position is out of bounds. enter a number from 1-9.'')) st)"
    if "Number_js raw \<noteq> NaN"
      "js_lt position (Num 0) \<or> js_ge position (Num (of_nat (length (board st))))"
  proof -
    have "verdict_of (board st) raw = OutOfBounds" using that nan by (simp add: v verdict_at_def)
    then show ?thesis using assms(1,3) by (simp add: on_turn_taken_rejected act_def)
  qed
  have p3: "i < length (board st)
            \<and> (board st ! i \<noteq> ''.'' \<longrightarrow>
                 st' = call_next next s
                   (act (Emit s ''turn'' (Str ''that position is occupied. try again.'')) st))
            \<and> (board st ! i = ''.'' \<longrightarrow>
                 (\<exists>rest. trace st' = trace st
                    @ map (\<lambda>t. Emit t ''board_update'' (Board ((board st)[i := symbol]))) (connected st)
                    @ rest)
                 \<and> (board st' = (board st)[i := symbol] \<or> board st' = empty_board))"
    if "Number_js raw \<noteq> NaN" "\<not> js_lt position (Num 0)"
      "\<not> js_ge position (Num (of_nat (length (board st))))" "position = Num (of_nat i)"
  proof -
    have i: "i < length (board st)" using that(3,4) by simp
    then have idx: "array_index (board st) position = Some i"
      by (simp add: array_index_def that(4))
    have occ: "verdict_of (board st) raw = Occupied" if "board st ! i \<noteq> ''.''"
      using that \<open>Number_js raw \<noteq> NaN\<close> \<open>\<not> js_lt position (Num 0)\<close>
        \<open>\<not> js_ge position (Num (of_nat (length (board st))))\<close> nan idx
      by (simp add: v verdict_at_def)
    have acc: "verdict_of (board st) raw = Accepted i" if "board st ! i = ''.''"
      using that \<open>Number_js raw \<noteq> NaN\<close> \<open>\<not> js_lt position (Num 0)\<close>
        \<open>\<not> js_ge position (Num (of_nat (length (board st))))\<close> nan idx
      by (simp add: v verdict_at_def)
    have a1: "st' = call_next next s
                   (act (Emit s ''turn'' (Str ''that position is occupied. try again.'')) st)"
      if "board st ! i \<noteq> ''.''"
      using occ [OF that] assms(1,3) by (simp add: on_turn_taken_rejected act_def)
    have a2: "(\<exists>rest. trace st' = trace st
                    @ map (\<lambda>t. Emit t ''board_update'' (Board ((board st)[i := symbol]))) (connected st)
                    @ rest)
                 \<and> (board st' = (board st)[i := symbol] \<or> board st' = empty_board)"
      if "board st ! i = ''.''"
    proof (cases "outcome ((board st)[i := symbol])")
      case None
      from new_trace_on [OF assms(1) acc [OF that] None, of s "next"]
      have "\<exists>rest. trace st' = trace st
                    @ map (\<lambda>t. Emit t ''board_update'' (Board ((board st)[i := symbol]))) (connected st)
                    @ rest"
        using assms(3) by auto
      moreover have "board st' = (board st)[i := symbol]"
        by (simp add: assms(3) on_turn_taken_accepted [OF assms(1) acc [OF that]] None Let_def)
      ultimately show ?thesis by simp
    next
      case (Some msg)
      from new_trace_over [OF assms(1) acc [OF that] Some, of s "next"]
      have "\<exists>rest. trace st' = trace st
                    @ map (\<lambda>t. Emit t ''board_update'' (Board ((board st)[i := symbol]))) (connected st)
                    @ rest"
        using assms(3) by auto
      moreover have "board st' = empty_board"
        by (simp add: assms(3) on_turn_taken_accepted [OF assms(1) acc [OF that]] Some Let_def)
      ultimately show ?thesis by simp
    qed
    from i a1 a2 show ?thesis by blast
  qed
  from p1 p2 p3 show ?thesis by blast
qed

theorem move_validation_order_witness:
  "\<not> crashed (game empty_board)
   \<and> js_sub (Number_js (JStr ''5'')) (Num 1) = Num 4
   \<and> (board (on_turn_taken 1 ''x'' (JStr ''5'') True (game empty_board))
         = [''.'', ''.'', ''.'', ''.'', ''x'', ''.'', ''.'', ''.'', ''.'']
       \<or> board (on_turn_taken 1 ''x'' (JStr ''5'') True (game empty_board)) = empty_board)"
proof -
  have c: "\<not> crashed (game empty_board)" by (simp add: game_def)
  have p: "js_sub (Number_js (JStr ''5'')) (Num 1) = Num 4" by code_simp
  have n: "Number_js (JStr ''5'') \<noteq> NaN" by code_simp
  have p': "Num 4 = js_sub (Number_js (JStr ''5'')) (Num 1)" using p by simp
  from move_validation_order [OF c p' refl, of 1 "''x''" True 4] n
  have "board (on_turn_taken 1 ''x'' (JStr ''5'') True (game empty_board))
          = (board (game empty_board))[4 := ''x'']
        \<or> board (on_turn_taken 1 ''x'' (JStr ''5'') True (game empty_board)) = empty_board"
    by (simp add: game_def empty_board_def)
  then show ?thesis using c p by (simp add: game_def empty_board_def)
qed




text \<open>
  C2. The spec has a connection attempt made while both slots are filled rejected and
  without effect on the game in progress. The \<^verbatim>\<open>connection\<close> listener does send
  \<^verbatim>\<open>reject\<close>, but then runs the test "both sockets set" that starts a game, which holds:
  it registers the listeners of both players a second time and sends \<^verbatim>\<open>game_start\<close> to
  both and \<^verbatim>\<open>turn\<close> to the first player again. Here the first player has moved and the
  turn is with the second player when socket 3 connects; afterwards it is with the first.
  The server does not disconnect socket 3: its client exits when it gets \<^verbatim>\<open>reject\<close>.
\<close>

theorem third_connection_starts_the_game_again:
  "step (Connection 3) (run [Connection 1, Connection 2, TurnTaken 1 (JStr ''5'') True] initial_state)
   = (run [Connection 1, Connection 2, TurnTaken 1 (JStr ''5'') True] initial_state)
       \<lparr>listeners := [(1, ''x''), (2, ''o''), (1, ''x''), (2, ''o'')],
        trace := trace (run [Connection 1, Connection 2, TurnTaken 1 (JStr ''5'') True] initial_state)
          @ [Emit 3 ''reject''
               (Str ''you can't connect now! there are already two players connected.''),
             Emit 1 ''game_start'' (Str ''first''), Emit 2 ''game_start'' (Str ''second''),
             Emit 1 ''turn'' Null]\<rparr>
   \<and> turn_token (run [Connection 1, Connection 2, TurnTaken 1 (JStr ''5'') True] initial_state) = Some 2
   \<and> turn_token (step (Connection 3)
        (run [Connection 1, Connection 2, TurnTaken 1 (JStr ''5'') True] initial_state)) = Some 1
   \<and> client_on_reject ''you can't connect now! there are already two players connected.''
     = [PrintError ''rejected. you can't connect now! there are already two players connected.'',
        Exit 1]"
proof -
  let ?g = "\<lparr>firstPlayerSocket = Some 1, secondPlayerSocket = Some 2, board = empty_board,
      listeners = [(1, ''x''), (2, ''o'')],
      trace = [Emit 1 ''game_start'' (Str ''first''), Emit 2 ''game_start'' (Str ''second''),
               Emit 1 ''turn'' Null],
      crashed = False, disconnected = []\<rparr>"
  let ?b = "[''.'', ''.'', ''.'', ''.'', ''x'', ''.'', ''.'', ''.'', ''.'']"
  let ?h = "?g\<lparr>board := ?b,
               trace := trace ?g @ [Emit 1 ''board_update'' (Board ?b), Emit 2 ''board_update'' (Board ?b),
                                   Emit 2 ''turn'' Null, Ack 1]\<rparr>"
  have c: "\<not> crashed ?g" by simp
  have v: "verdict_of empty_board (JStr ''5'') = Accepted 4" by code_simp
  have o: "outcome ?b = None"
    by (simp add: outcome_def lines_def complete_def filled_def at_index_def)
  have m: "on_turn_taken 1 ''x'' (JStr ''5'') True ?g = ?h"
    using on_turn_taken_accepted [OF c, of "JStr ''5''" 4 1 "''x''" True] o
    by (simp add: v) (simp add: empty_board_def connected_def emit_def act_def call_next_def Let_def)
  have "run [Connection 1, Connection 2, TurnTaken 1 (JStr ''5'') True] initial_state
        = step (TurnTaken 1 (JStr ''5'') True) (run [Connection 1, Connection 2] initial_state)"
    by (simp add: run_def)
  also have "\<dots> = ?h"
    unfolding start by (simp add: step_def registered_def m Let_def del: One_nat_def)
  finally have h: "run [Connection 1, Connection 2, TurnTaken 1 (JStr ''5'') True] initial_state = ?h" .
  show ?thesis
    unfolding h
    by (simp add: step_def on_connection_def setupSocket_def emit_def act_def Let_def turn_token_def
        client_on_reject_def)
qed

end
